theory Spec2Isabelle
  imports
    Complex_Main
    "HOL-Library.Multiset"
    "HOL-Library.Char_ord"
    "HOL-Library.List_Lexorder"
begin

section \<open>Python values, failures and sequencing\<close>

text \<open>
  The notebook \<^verbatim>\<open>day1notebooks/lab2_end_to_end.ipynb\<close> is a sequence of cells.
  Each cell is modelled as a function from the variables it reads to the variables it
  writes. A raised exception is the value \<open>Inl e\<close>; the notebook has no
  \<^verbatim>\<open>try\<close>, so an \<open>Inl\<close> is never turned back into an \<open>Inr\<close>.
\<close>

datatype error = IndexError | OverflowError | ValueError | LibraryError string

definition bind_err :: "error + 'a \<Rightarrow> ('a \<Rightarrow> error + 'b) \<Rightarrow> error + 'b" where
  "bind_err m f = (case m of Inl e \<Rightarrow> Inl e | Inr x \<Rightarrow> f x)"

text \<open>
  \<^verbatim>\<open>xs[i]\<close> on a Python sequence: a negative index counts from the end, an index
  outside \<open>-len \<dots> len-1\<close> raises \<^verbatim>\<open>IndexError\<close>.
\<close>

definition getitem :: "'a list \<Rightarrow> int \<Rightarrow> error + 'a" where
  "getitem xs i =
     (if 0 \<le> i \<and> i < int (length xs) then Inr (xs ! nat i)
      else if i < 0 \<and> - int (length xs) \<le> i then Inr (xs ! nat (i + int (length xs)))
      else Inl IndexError)"

text \<open>\<^verbatim>\<open>for i in range(...)\<close> with a body that may raise: the first failure ends the loop.\<close>

fun for_range :: "(nat \<Rightarrow> 's \<Rightarrow> error + 's) \<Rightarrow> nat list \<Rightarrow> 's \<Rightarrow> error + 's" where
  "for_range body [] s = Inr s"
| "for_range body (i # is) s = bind_err (body i s) (for_range body is)"

section \<open>The dataset class (cell 18)\<close>

text \<open>
  \<^verbatim>\<open>
  class MedNISTDataset(torch.utils.data.Dataset):
      def __init__(self, image_files, labels, transforms):
          self.image_files = image_files
          self.labels = labels
          self.transforms = transforms
      def __len__(self):
          return len(self.image_files)
      def __getitem__(self, index):
          return self.transforms(self.image_files[index]), self.labels[index]
  \<close>
  The transform pipeline belongs to the library; it is a field of the object, a function
  that may raise. The tuple is evaluated left to right: the image is indexed and
  transformed before the label is indexed.
\<close>

record ('f, 'l, 't) MedNISTDataset =
  image_files :: "'f list"
  labels :: "'l list"
  transforms :: "'f \<Rightarrow> error + 't"

definition MedNISTDataset_init ::
  "'f list \<Rightarrow> 'l list \<Rightarrow> ('f \<Rightarrow> error + 't) \<Rightarrow> ('f, 'l, 't) MedNISTDataset" where
  "MedNISTDataset_init fs ls tr = \<lparr>image_files = fs, labels = ls, transforms = tr\<rparr>"

definition MedNISTDataset_len :: "('f, 'l, 't) MedNISTDataset \<Rightarrow> nat" where
  "MedNISTDataset_len self = length (image_files self)"

definition MedNISTDataset_getitem :: "('f, 'l, 't) MedNISTDataset \<Rightarrow> int \<Rightarrow> error + ('t \<times> 'l)" where
  "MedNISTDataset_getitem self index =
     bind_err (getitem (image_files self) index) (\<lambda>f.
     bind_err (transforms self f) (\<lambda>t.
     bind_err (getitem (labels self) index) (\<lambda>l.
     Inr (t, l))))"

text \<open>An index Python accepts for a sequence of the given length.\<close>

definition valid_index :: "'a list \<Rightarrow> int \<Rightarrow> bool" where
  "valid_index xs i = (- int (length xs) \<le> i \<and> i < int (length xs))"

section \<open>The hand-rolled training loop (cell 22)\<close>

text \<open>
  Training, the validation pass and the metric are the libraries' work. What they hand
  to the notebook's own code in one epoch is taken as given: the \<^verbatim>\<open>loss.item()\<close>
  of each batch of \<^verbatim>\<open>train_loader\<close>, the value of \<^verbatim>\<open>compute_roc_auc\<close> on the
  validation set, and \<^verbatim>\<open>net.state_dict()\<close> at the end of the epoch. Numbers are exact
  rationals; rounding of floating-point sums and quotients is not modelled.
\<close>

record 'w epoch_result =
  batch_losses :: "rat list"
  auc_metric :: rat
  state_dict :: 'w

text \<open>
  The variables of the cell. \<open>saved\<close> lists the arguments of the calls
  \<^verbatim>\<open>torch.save(net.state_dict(), ".../best_metric_model.pth")\<close>, oldest first; the file
  holds the last one.
\<close>

record 'w training =
  best_metric :: rat
  best_metric_epoch :: int
  epoch_loss_values :: "rat list"
  metric_values :: "rat list"
  saved :: "'w list"

text \<open>
  \<^verbatim>\<open>
  epoch_loss = 0
  step = 1
  for batch_data in train_loader:
      ...
      epoch_loss += loss.item()
      step += 1
  epoch_loss /= step
  \<close>
\<close>

definition batch_step :: "rat \<Rightarrow> rat \<times> nat \<Rightarrow> rat \<times> nat" where
  "batch_step loss = (\<lambda>(epoch_loss, step). (epoch_loss + loss, step + 1))"

definition epoch_average :: "rat list \<Rightarrow> rat" where
  "epoch_average losses =
     (case fold batch_step losses (0, 1) of (epoch_loss, step) \<Rightarrow> epoch_loss / of_nat step)"

text \<open>
  \<^verbatim>\<open>
  epoch_loss_values.append(epoch_loss)
  ...
  metric_values.append(auc_metric)
  if auc_metric > best_metric:
      best_metric = auc_metric
      best_metric_epoch = epoch + 1
      torch.save(net.state_dict(), os.path.join(root_dir, "best_metric_model.pth"))
  \<close>
\<close>

definition epoch_body :: "(nat \<Rightarrow> 'w epoch_result) \<Rightarrow> nat \<Rightarrow> 'w training \<Rightarrow> 'w training" where
  "epoch_body run epoch t =
     (let epoch_loss = epoch_average (batch_losses (run epoch));
          t = t\<lparr>epoch_loss_values := epoch_loss_values t @ [epoch_loss]\<rparr>;
          t = t\<lparr>metric_values := metric_values t @ [auc_metric (run epoch)]\<rparr>
      in if auc_metric (run epoch) > best_metric t
         then t\<lparr>best_metric := auc_metric (run epoch),
                best_metric_epoch := int epoch + 1,
                saved := saved t @ [state_dict (run epoch)]\<rparr>
         else t)"

definition training_init :: "'w training" where
  "training_init =
     \<lparr>best_metric = - 1, best_metric_epoch = - 1, epoch_loss_values = [],
      metric_values = [], saved = []\<rparr>"

definition training_loop :: "nat \<Rightarrow> (nat \<Rightarrow> 'w epoch_result) \<Rightarrow> 'w training" where
  "training_loop epoch_num run = fold (epoch_body run) [0..<epoch_num] training_init"

section \<open>The notebook's variables and its surroundings\<close>

text \<open>
  What the cells call outside the notebook is a parameter of the model: the file system
  and the network behind the calls of \<^verbatim>\<open>os\<close>, \<^verbatim>\<open>tempfile\<close>, \<^verbatim>\<open>shutil\<close>,
  \<^verbatim>\<open>PIL\<close> and \<^verbatim>\<open>monai.apps\<close> (a world of type \<open>'w\<close> that the calls read and change),
  and numpy's random generators (states of type \<open>'g\<close>). A call that raises returns
  \<open>Inl\<close>.
\<close>

record 'w os_api =
  mkdtemp :: "'w \<Rightarrow> error + string \<times> 'w"
  path_exists :: "'w \<Rightarrow> string \<Rightarrow> bool"
  path_isdir :: "'w \<Rightarrow> string \<Rightarrow> bool"
  listdir :: "'w \<Rightarrow> string \<Rightarrow> error + string list"
  download_and_extract :: "string \<Rightarrow> string \<Rightarrow> string \<Rightarrow> string \<Rightarrow> 'w \<Rightarrow> error + 'w"
  rmtree :: "string \<Rightarrow> 'w \<Rightarrow> error + 'w"
  image_size :: "'w \<Rightarrow> string \<Rightarrow> error + nat \<times> nat"

text \<open>
  \<open>random_sample\<close> is \<^verbatim>\<open>np.random.random()\<close> on a generator state, \<open>seeded\<close> is
  \<^verbatim>\<open>np.random.RandomState(seed)\<close>, and \<open>shuffle\<close> is \<^verbatim>\<open>RandomState.shuffle\<close> on a
  one-dimensional integer array; each use of a generator returns its next state.
\<close>

record 'g np_random =
  random_sample :: "'g \<Rightarrow> rat \<times> 'g"
  seeded :: "nat \<Rightarrow> 'g"
  shuffle :: "'g \<Rightarrow> int list \<Rightarrow> int list \<times> 'g"

text \<open>
  The global variables of the notebook that the modelled cells read or write, with the
  world and the state of numpy's global generator (the one behind \<^verbatim>\<open>np.random.random\<close>).
\<close>

record ('g, 'w) notebook =
  world :: 'w
  np_global :: 'g
  directory :: "string option"
  root_dir :: string
  compressed_file :: string
  data_dir :: string
  class_names :: "string list"
  num_class :: nat
  num_each :: "nat list"
  image_files_list :: "string list"
  image_class :: "nat list"
  num_total :: nat
  image_width :: nat
  image_height :: nat
  train_x :: "string list"
  train_y :: "nat list"
  val_x :: "string list"
  val_y :: "nat list"
  test_x :: "string list"
  test_y :: "nat list"

text \<open>
  \<^verbatim>\<open>os.path.join(a, *p)\<close> of \<^verbatim>\<open>posixpath\<close>: a component that starts with a slash
  replaces what came before; otherwise it is appended, after a slash unless the path is
  empty or already ends with one.
\<close>

definition join_step :: "string \<Rightarrow> string \<Rightarrow> string" where
  "join_step path b =
     (if b \<noteq> [] \<and> hd b = CHR ''/'' then b
      else if path = [] \<or> last path = CHR ''/'' then path @ b
      else path @ ''/'' @ b)"

definition os_path_join :: "string \<Rightarrow> string list \<Rightarrow> string" where
  "os_path_join a p = foldl join_step a p"

text \<open>A list comprehension whose element expression may raise.\<close>

fun map_err :: "('a \<Rightarrow> error + 'b) \<Rightarrow> 'a list \<Rightarrow> error + 'b list" where
  "map_err f [] = Inr []"
| "map_err f (x # xs) = bind_err (f x) (\<lambda>y. bind_err (map_err f xs) (\<lambda>ys. Inr (y # ys)))"

section \<open>The data directory (cells 4, 6 and 40)\<close>

text \<open>
  \<^verbatim>\<open>
  directory = os.environ.get("MONAI_DATA_DIRECTORY")
  root_dir = tempfile.mkdtemp() if directory is None else directory
  \<close>
\<close>

definition cell4 ::
  "'w os_api \<Rightarrow> (string \<rightharpoonup> string) \<Rightarrow> ('g, 'w) notebook \<Rightarrow> error + ('g, 'w) notebook" where
  "cell4 os environ s =
     (case environ ''MONAI_DATA_DIRECTORY'' of
        None \<Rightarrow>
          bind_err (mkdtemp os (world s)) (\<lambda>(d, w).
          Inr (s\<lparr>directory := None, root_dir := d, world := w\<rparr>))
      | Some d \<Rightarrow> Inr (s\<lparr>directory := Some d, root_dir := d\<rparr>))"

text \<open>
  \<^verbatim>\<open>
  resource = "https://www.dropbox.com/s/5wwskxctvcxiuea/MedNIST.tar.gz?dl=1"
  md5 = "0bc7306e7427e00ad1c5526a6677552d"
  compressed_file = os.path.join(root_dir, "MedNIST.tar.gz")
  data_dir = os.path.join(root_dir, "MedNIST")
  if not os.path.exists(data_dir):
      download_and_extract(resource, compressed_file, root_dir, md5)
  \<close>
\<close>

definition resource :: string where
  "resource = ''https://www.dropbox.com/s/5wwskxctvcxiuea/MedNIST.tar.gz?dl=1''"

definition md5 :: string where
  "md5 = ''0bc7306e7427e00ad1c5526a6677552d''"

definition cell6 :: "'w os_api \<Rightarrow> ('g, 'w) notebook \<Rightarrow> error + ('g, 'w) notebook" where
  "cell6 os s =
     (let s = s\<lparr>compressed_file := os_path_join (root_dir s) [''MedNIST.tar.gz'']\<rparr>;
          s = s\<lparr>data_dir := os_path_join (root_dir s) [''MedNIST'']\<rparr>
      in if \<not> path_exists os (world s) (data_dir s)
         then bind_err
                (download_and_extract os resource (compressed_file s) (root_dir s) md5 (world s))
                (\<lambda>w. Inr (s\<lparr>world := w\<rparr>))
         else Inr s)"

text \<open>
  \<^verbatim>\<open>
  if directory is None:
      shutil.rmtree(root_dir)
  \<close>
\<close>

definition cell40 :: "'w os_api \<Rightarrow> ('g, 'w) notebook \<Rightarrow> error + ('g, 'w) notebook" where
  "cell40 os s =
     (if directory s = None
      then bind_err (rmtree os (root_dir s) (world s)) (\<lambda>w. Inr (s\<lparr>world := w\<rparr>))
      else Inr s)"

section \<open>Reading the file names (cell 10)\<close>

text \<open>
  \<^verbatim>\<open>
  class_names = sorted(x for x in os.listdir(data_dir)
                       if os.path.isdir(os.path.join(data_dir, x)))
  num_class = len(class_names)
  image_files = [
      [os.path.join(data_dir, class_names[i], x)
       for x in os.listdir(os.path.join(data_dir, class_names[i]))]
      for i in range(num_class)
  ]
  num_each = [len(image_files[i]) for i in range(num_class)]
  image_files_list = []
  image_class = []
  for i in range(num_class):
      image_files_list.extend(image_files[i])
      image_class.extend([i] * num_each[i])
  num_total = len(image_class)
  image_width, image_height = PIL.Image.open(image_files_list[0]).size
  \<close>
  Strings are compared as Python compares them, character by character; \<open>sort\<close> is
  stable, as \<^verbatim>\<open>sorted\<close> is. The indices \<open>i\<close> run over \<open>range(num_class)\<close>, and
  \<open>class_names\<close>, \<open>image_files\<close> and \<open>num_each\<close> have \<open>num_class\<close> elements, so
  these subscripts are in range; \<open>image_files_list[0]\<close> raises when no image was found.
\<close>

definition class_files :: "'w os_api \<Rightarrow> 'w \<Rightarrow> string \<Rightarrow> string list \<Rightarrow> nat \<Rightarrow> error + string list" where
  "class_files os w dir names i =
     bind_err (listdir os w (os_path_join dir [names ! i])) (\<lambda>xs.
     Inr (map (\<lambda>x. os_path_join dir [names ! i, x]) xs))"

definition extend_step ::
  "string list list \<Rightarrow> nat list \<Rightarrow> nat \<Rightarrow> string list \<times> nat list \<Rightarrow> string list \<times> nat list" where
  "extend_step files each i =
     (\<lambda>(files_list, classes). (files_list @ files ! i, classes @ replicate (each ! i) i))"

definition cell10 :: "'w os_api \<Rightarrow> ('g, 'w) notebook \<Rightarrow> error + ('g, 'w) notebook" where
  "cell10 os s =
     bind_err (listdir os (world s) (data_dir s)) (\<lambda>entries.
     let names = sort [x \<leftarrow> entries. path_isdir os (world s) (os_path_join (data_dir s) [x])];
         n = length names
     in bind_err (map_err (class_files os (world s) (data_dir s) names) [0..<n]) (\<lambda>image_files.
     let each = map (\<lambda>i. length (image_files ! i)) [0..<n];
         (files_list, classes) = fold (extend_step image_files each) [0..<n] ([], [])
     in bind_err (getitem files_list 0) (\<lambda>first.
        bind_err (image_size os (world s) first) (\<lambda>(width, height).
        Inr (s\<lparr>class_names := names, num_class := n, num_each := each,
               image_files_list := files_list, image_class := classes,
               num_total := length classes,
               image_width := width, image_height := height\<rparr>)))))"

section \<open>Floating-point constants and products\<close>

text \<open>
  The literal \<^verbatim>\<open>0.1\<close> denotes the double \<open>3602879701896397 / 2^55\<close>. A double has 53
  significant bits; \<open>round53\<close> rounds a natural number to 53 significant bits, to the
  nearest and to the even neighbour on a tie, as the conversion of a Python integer to
  a float and the IEEE product both do. \<open>bit_length\<close> is \<^verbatim>\<open>int.bit_length\<close>.
\<close>

fun bit_length :: "nat \<Rightarrow> nat" where
  "bit_length n = (if n = 0 then 0 else Suc (bit_length (n div 2)))"

definition round53 :: "nat \<Rightarrow> nat" where
  "round53 m =
     (if bit_length m \<le> 53 then m
      else let shift = bit_length m - 53;
               q = m div 2 ^ shift;
               r = m mod 2 ^ shift;
               half = 2 ^ (shift - 1)
           in (if half < r \<or> (r = half \<and> odd q) then q + 1 else q) * 2 ^ shift)"

text \<open>
  \<^verbatim>\<open>float(n)\<close>, as its exact value, which is an integer; an integer that rounds to
  \<open>2^1024\<close> or more raises \<^verbatim>\<open>OverflowError\<close>.
\<close>

definition py_float :: "nat \<Rightarrow> error + nat" where
  "py_float n = (if round53 n < 2 ^ 1024 then Inr (round53 n) else Inl OverflowError)"

definition tenth :: nat where
  "tenth = 3602879701896397"

text \<open>
  \<^verbatim>\<open>floor(p * n)\<close> for the double \<open>p = m / 2^55\<close> and the integer \<open>n\<close>: \<open>n\<close> is
  converted, the exact product \<open>m * float(n) / 2^55\<close> is rounded to a double, and the
  floor of that double is taken. For \<open>m = tenth\<close> the product is between \<open>0.1\<close> and
  the largest double, or zero, so it is neither subnormal nor infinite.
\<close>

definition floor_product :: "nat \<Rightarrow> nat \<Rightarrow> error + nat" where
  "floor_product m n = bind_err (py_float n) (\<lambda>x. Inr (round53 (m * x) div 2 ^ 55))"

section \<open>The split by random draws (cell 14)\<close>

text \<open>
  \<^verbatim>\<open>
  val_frac = 0.1
  test_frac = 0.1
  train_x = list()
  ...
  test_y = list()
  for i in range(num_total):
      rann = np.random.random()
      if rann < val_frac:
          val_x.append(image_files_list[i])
          val_y.append(image_class[i])
      elif rann < test_frac + val_frac:
          test_x.append(image_files_list[i])
          test_y.append(image_class[i])
      else:
          train_x.append(image_files_list[i])
          train_y.append(image_class[i])
  \<close>
  The sum \<^verbatim>\<open>test_frac + val_frac\<close> of the two equal doubles is exact. The draw comes
  from numpy's global generator.
\<close>

definition val_frac :: rat where
  "val_frac = of_nat tenth / 2 ^ 55"

definition test_frac :: rat where
  "test_frac = of_nat tenth / 2 ^ 55"

definition split_step :: "'g np_random \<Rightarrow> nat \<Rightarrow> ('g, 'w) notebook \<Rightarrow> error + ('g, 'w) notebook" where
  "split_step np i s =
     (case random_sample np (np_global s) of (rann, g) \<Rightarrow>
        let s = s\<lparr>np_global := g\<rparr>
        in if rann < val_frac then
             bind_err (getitem (image_files_list s) (int i)) (\<lambda>f.
             let s = s\<lparr>val_x := val_x s @ [f]\<rparr> in
             bind_err (getitem (image_class s) (int i)) (\<lambda>c.
             Inr (s\<lparr>val_y := val_y s @ [c]\<rparr>)))
           else if rann < test_frac + val_frac then
             bind_err (getitem (image_files_list s) (int i)) (\<lambda>f.
             let s = s\<lparr>test_x := test_x s @ [f]\<rparr> in
             bind_err (getitem (image_class s) (int i)) (\<lambda>c.
             Inr (s\<lparr>test_y := test_y s @ [c]\<rparr>)))
           else
             bind_err (getitem (image_files_list s) (int i)) (\<lambda>f.
             let s = s\<lparr>train_x := train_x s @ [f]\<rparr> in
             bind_err (getitem (image_class s) (int i)) (\<lambda>c.
             Inr (s\<lparr>train_y := train_y s @ [c]\<rparr>))))"

definition cell14 :: "'g np_random \<Rightarrow> ('g, 'w) notebook \<Rightarrow> error + ('g, 'w) notebook" where
  "cell14 np s =
     for_range (split_step np) [0..<num_total s]
       (s\<lparr>train_x := [], train_y := [], val_x := [], val_y := [], test_x := [], test_y := []\<rparr>)"

text \<open>
  The state of a generator after \<open>k\<close> calls of \<^verbatim>\<open>random\<close>, and the number the next
  call returns.
\<close>

fun generator_after :: "'g np_random \<Rightarrow> 'g \<Rightarrow> nat \<Rightarrow> 'g" where
  "generator_after np g 0 = g"
| "generator_after np g (Suc k) = snd (random_sample np (generator_after np g k))"

definition draw :: "'g np_random \<Rightarrow> 'g \<Rightarrow> nat \<Rightarrow> rat" where
  "draw np g k = fst (random_sample np (generator_after np g k))"

section \<open>The revised split (cell 36)\<close>

text \<open>
  \<^verbatim>\<open>
  dataset_seed = 12345678
  r = np.random.RandomState(dataset_seed)
  validation_proportion = 0.1
  test_proportion = 0.1
  validation_count = floor(validation_proportion * num_total)
  test_count = floor(test_proportion * num_total)
  groups = np.zeros(num_total, dtype=np.int32)
  groups[:validation_count] = 1
  groups[validation_count:validation_count + test_count] = 2
  r.shuffle(groups)
  image_sets = list(), list(), list()
  label_sets = list(), list(), list()
  for n in range(num_total):
      image_sets[groups[n]].append(image_files_list[n])
      label_sets[groups[n]].append(image_class[n])
  train_x, val_x, test_x = image_sets
  train_y, val_y, test_y = label_sets
  \<close>
  A slice assignment with bounds \<open>0 \<le> lo\<close> and \<open>0 \<le> hi\<close> clips both at the length
  of the array and writes nothing when the clipped slice is empty.
\<close>

definition dataset_seed :: nat where
  "dataset_seed = 12345678"

definition np_zeros :: "nat \<Rightarrow> int list" where
  "np_zeros n = replicate n 0"

definition slice_assign :: "'a list \<Rightarrow> nat \<Rightarrow> nat \<Rightarrow> 'a \<Rightarrow> 'a list" where
  "slice_assign xs lo hi v =
     (let a = min lo (length xs); b = max a (min hi (length xs))
      in take a xs @ replicate (b - a) v @ drop b xs)"

definition labelled_groups :: "nat \<Rightarrow> nat \<Rightarrow> nat \<Rightarrow> int list" where
  "labelled_groups n validation_count test_count =
     (let groups = np_zeros n;
          groups = slice_assign groups 0 validation_count 1
      in slice_assign groups validation_count (validation_count + test_count) 2)"

text \<open>\<^verbatim>\<open>sets[g].append(x)\<close> on a tuple of lists.\<close>

definition tuple_append :: "'a list list \<Rightarrow> int \<Rightarrow> 'a \<Rightarrow> error + 'a list list" where
  "tuple_append sets g x =
     bind_err (getitem sets g) (\<lambda>l.
     Inr (sets[nat (if g < 0 then g + int (length sets) else g) := l @ [x]]))"

definition group_step ::
  "int list \<Rightarrow> string list \<Rightarrow> nat list \<Rightarrow> nat \<Rightarrow>
   string list list \<times> nat list list \<Rightarrow> error + string list list \<times> nat list list" where
  "group_step groups files classes n =
     (\<lambda>(image_sets, label_sets).
        bind_err (getitem groups (int n)) (\<lambda>g.
        bind_err (getitem image_sets g) (\<lambda>l.
        bind_err (getitem files (int n)) (\<lambda>f.
        bind_err (tuple_append image_sets g f) (\<lambda>image_sets.
        bind_err (getitem groups (int n)) (\<lambda>g.
        bind_err (getitem label_sets g) (\<lambda>l.
        bind_err (getitem classes (int n)) (\<lambda>c.
        bind_err (tuple_append label_sets g c) (\<lambda>label_sets.
        Inr (image_sets, label_sets))))))))))"

text \<open>\<^verbatim>\<open>a, b, c = t\<close>: a tuple of any other length raises \<^verbatim>\<open>ValueError\<close>.\<close>

fun unpack3 :: "'a list \<Rightarrow> error + 'a \<times> 'a \<times> 'a" where
  "unpack3 [a, b, c] = Inr (a, b, c)"
| "unpack3 t = Inl ValueError"

definition cell36 :: "'g np_random \<Rightarrow> ('g, 'w) notebook \<Rightarrow> error + ('g, 'w) notebook" where
  "cell36 np s =
     (let r = seeded np dataset_seed in
      bind_err (floor_product tenth (num_total s)) (\<lambda>validation_count.
      bind_err (floor_product tenth (num_total s)) (\<lambda>test_count.
      let groups = labelled_groups (num_total s) validation_count test_count;
          (groups, r) = shuffle np r groups
      in bind_err (for_range (group_step groups (image_files_list s) (image_class s))
                     [0..<num_total s] ([[], [], []], [[], [], []])) (\<lambda>(image_sets, label_sets).
         bind_err (unpack3 image_sets) (\<lambda>(x0, x1, x2).
         bind_err (unpack3 label_sets) (\<lambda>(y0, y1, y2).
         Inr (s\<lparr>train_x := x0, val_x := x1, test_x := x2,
                train_y := y0, val_y := y1, test_y := y2\<rparr>)))))))"

text \<open>The six lists a split leaves behind.\<close>

definition split_lists ::
  "('g, 'w) notebook \<Rightarrow>
   string list \<times> nat list \<times> string list \<times> nat list \<times> string list \<times> nat list" where
  "split_lists s = (train_x s, train_y s, val_x s, val_y s, test_x s, test_y s)"

section \<open>Concrete runs for the examples\<close>

text \<open>
  Four epochs whose validation AUC is 0.5, 0.9, 0.9 and 0.7, each with two batches of
  loss 1 and 2; the weights after epoch \<open>e\<close> are represented by the number \<open>e\<close>.
\<close>

definition example_run :: "nat \<Rightarrow> nat epoch_result" where
  "example_run e =
     \<lparr>batch_losses = [1, 2], auc_metric = [1 / 2, 9 / 10, 9 / 10, 7 / 10] ! e, state_dict = e\<rparr>"

text \<open>
  A small file system in memory for the examples: a table from paths to nodes, a
  directory node listing its entries in the order \<^verbatim>\<open>os.listdir\<close> reports them.
  Downloading unpacks a tree with two class folders and a stray file.
\<close>

datatype node = File | Dir "string list"

definition example_tree :: "string \<Rightarrow> (string \<times> node) list" where
  "example_tree base =
     [(base @ ''/MedNIST'', Dir [''Hand'', ''README.md'', ''CXR'']),
      (base @ ''/MedNIST/Hand'', Dir [''b.jpeg'', ''a.jpeg'']),
      (base @ ''/MedNIST/README.md'', File),
      (base @ ''/MedNIST/CXR'', Dir [''c.jpeg''])]"

definition example_os :: "(string \<times> node) list os_api" where
  "example_os =
     \<lparr>mkdtemp = (\<lambda>w. Inr (''/tmp/tmpq1w2e3'', (''/tmp/tmpq1w2e3'', Dir []) # w)),
      path_exists = (\<lambda>w p. map_of w p \<noteq> None),
      path_isdir = (\<lambda>w p. case map_of w p of Some (Dir xs) \<Rightarrow> True | _ \<Rightarrow> False),
      listdir = (\<lambda>w p. case map_of w p of Some (Dir xs) \<Rightarrow> Inr xs
                         | _ \<Rightarrow> Inl (LibraryError ''NotADirectoryError'')),
      download_and_extract = (\<lambda>url file dir sum w. Inr (example_tree dir @ w)),
      rmtree = (\<lambda>p w. Inr [(q, n) \<leftarrow> w. take (length p) q \<noteq> p]),
      image_size = (\<lambda>w p. Inr (64, 64))\<rparr>"

definition example_notebook :: "(nat, (string \<times> node) list) notebook" where
  "example_notebook =
     \<lparr>world = example_tree ''/data'', np_global = 7, directory = Some ''/data'',
      root_dir = ''/data'', compressed_file = ''/data/MedNIST.tar.gz'',
      data_dir = ''/data/MedNIST'', class_names = [], num_class = 0, num_each = [],
      image_files_list = [], image_class = [], num_total = 0, image_width = 0,
      image_height = 0, train_x = [], train_y = [], val_x = [], val_y = [],
      test_x = [], test_y = []\<rparr>"

definition example_listed :: "(nat, (string \<times> node) list) notebook" where
  "example_listed =
     example_notebook\<lparr>class_names := [''CXR'', ''Hand''], num_class := 2, num_each := [1, 2],
        image_files_list := [''/data/MedNIST/CXR/c.jpeg'', ''/data/MedNIST/Hand/b.jpeg'',
           ''/data/MedNIST/Hand/a.jpeg''],
        image_class := [0, 1, 1], num_total := 3, image_width := 64, image_height := 64\<rparr>"

text \<open>
  A small generator for the examples: its state is a number below 20, a draw is that
  number divided by 20, and shuffling rotates the array.
\<close>

definition example_rng :: "nat np_random" where
  "example_rng =
     \<lparr>random_sample = (\<lambda>g. (of_nat (g mod 20) / 20, (g + 7) mod 20)),
      seeded = (\<lambda>seed. seed mod 20),
      shuffle = (\<lambda>g xs. (rotate (Suc g) xs, (g + 7) mod 20))\<rparr>"

definition example_ten :: "(nat, (string \<times> node) list) notebook" where
  "example_ten =
     example_notebook\<lparr>image_files_list :=
          [''a'', ''b'', ''c'', ''d'', ''e'', ''f'', ''g'', ''h'', ''i'', ''j''],
        image_class := [0, 0, 0, 0, 0, 1, 1, 1, 1, 1], num_total := 10\<rparr>"

section \<open>Properties\<close>

subsection \<open>Indexing and sequencing\<close>

lemma bind_err_Inr [simp]: "bind_err (Inr x) f = f x"
  by (simp add: bind_err_def)

lemma bind_err_Inl [simp]: "bind_err (Inl e) f = Inl e"
  by (simp add: bind_err_def)

lemma bind_err_eq_Inr:
  "bind_err m f = Inr y \<longleftrightarrow> (\<exists>x. m = Inr x \<and> f x = Inr y)"
  by (cases m) simp_all

lemma getitem_nat [simp]:
  "getitem xs (int i) = (if i < length xs then Inr (xs ! i) else Inl IndexError)"
  by (simp add: getitem_def)

lemma getitem_eq_Inr:
  "getitem xs i = Inr x \<longleftrightarrow>
     valid_index xs i \<and> x = xs ! nat (if i < 0 then i + int (length xs) else i)"
  by (auto simp: getitem_def valid_index_def)

lemma getitem_invalid: "\<not> valid_index xs i \<Longrightarrow> getitem xs i = Inl IndexError"
  by (auto simp: getitem_def valid_index_def)

subsection \<open>The data directory\<close>

lemma cell4_set:
  "environ ''MONAI_DATA_DIRECTORY'' = Some v \<Longrightarrow>
     cell4 os environ s = Inr (s\<lparr>directory := Some v, root_dir := v\<rparr>)"
  by (simp add: cell4_def)

lemma cell4_unset:
  "environ ''MONAI_DATA_DIRECTORY'' = None \<Longrightarrow>
     cell4 os environ s =
       bind_err (mkdtemp os (world s)) (\<lambda>(d, w). Inr (s\<lparr>directory := None, root_dir := d, world := w\<rparr>))"
  by (simp add: cell4_def)

lemma cell4_unset_Inr:
  "environ ''MONAI_DATA_DIRECTORY'' = None \<Longrightarrow>
     cell4 os environ s = Inr s' \<longleftrightarrow>
       (\<exists>d w. mkdtemp os (world s) = Inr (d, w) \<and> s' = s\<lparr>directory := None, root_dir := d, world := w\<rparr>)"
  by (auto simp: cell4_unset bind_err_eq_Inr)






subsection \<open>Reading the file names\<close>

lemma map_err_Inr:
  "map_err f xs = Inr ys \<Longrightarrow> length ys = length xs \<and> (\<forall>i<length xs. f (xs ! i) = Inr (ys ! i))"
proof (induction xs arbitrary: ys)
  case Nil
  then show ?case by simp
next
  case (Cons x xs)
  from Cons.prems obtain y ys' where y: "f x = Inr y" and ys': "map_err f xs = Inr ys'"
    and eq: "ys = y # ys'"
    by (auto simp: bind_err_eq_Inr)
  from Cons.IH [OF ys'] y eq show ?case
    by (auto simp: nth_Cons split: nat.splits)
qed

lemma fold_extend_step:
  "fold (extend_step files each) is (fl, cl) =
     (fl @ concat (map (\<lambda>i. files ! i) is), cl @ concat (map (\<lambda>i. replicate (each ! i) i) is))"
  by (induction "is" arbitrary: fl cl) (simp_all add: extend_step_def)

lemma zip_replicate_length:
  "zip xs (replicate (length xs) c) = map (\<lambda>p. (p, c)) xs"
  by (induction xs) simp_all

lemma zip_concat_classes:
  "zip (concat (map F is)) (concat (map (\<lambda>i. replicate (length (F i)) i) is)) =
     concat (map (\<lambda>i. map (\<lambda>p. (p, i)) (F i)) is)"
proof (induction "is")
  case Nil
  show ?case by simp
next
  case (Cons i "is")
  then show ?case
    by (simp add: zip_replicate_length)
qed


lemma cell10_Inr:
  assumes "cell10 os s = Inr s'"
  obtains entries image_files where
    "listdir os (world s) (data_dir s) = Inr entries"
    "class_names s' = sort [x \<leftarrow> entries. path_isdir os (world s) (os_path_join (data_dir s) [x])]"
    "num_class s' = length (class_names s')"
    "map_err (class_files os (world s) (data_dir s) (class_names s')) [0..<num_class s'] = Inr image_files"
    "num_each s' = map (\<lambda>i. length (image_files ! i)) [0..<num_class s']"
    "image_files_list s' = concat (map (\<lambda>i. image_files ! i) [0..<num_class s'])"
    "image_class s' = concat (map (\<lambda>i. replicate (length (image_files ! i)) i) [0..<num_class s'])"
    "num_total s' = length (image_class s')"
    "world s' = world s" "data_dir s' = data_dir s"
    "directory s' = directory s" "root_dir s' = root_dir s"
proof -
  from assms obtain entries where e: "listdir os (world s) (data_dir s) = Inr entries"
    by (auto simp: cell10_def bind_err_eq_Inr)
  define names where "names = sort [x \<leftarrow> entries. path_isdir os (world s) (os_path_join (data_dir s) [x])]"
  have c: "cell10 os s =
      bind_err (map_err (class_files os (world s) (data_dir s) names) [0..<length names])
       (\<lambda>image_files.
          case fold (extend_step image_files (map (\<lambda>i. length (image_files ! i)) [0..<length names]))
                 [0..<length names] ([], []) of
            (files_list, classes) \<Rightarrow>
              bind_err (getitem files_list 0) (\<lambda>first.
              bind_err (image_size os (world s) first) (\<lambda>(width, height).
              Inr (s\<lparr>class_names := names, num_class := length names,
                     num_each := map (\<lambda>i. length (image_files ! i)) [0..<length names],
                     image_files_list := files_list, image_class := classes,
                     num_total := length classes,
                     image_width := width, image_height := height\<rparr>))))"
    unfolding cell10_def e bind_err_Inr Let_def names_def ..
  from assms [unfolded c bind_err_eq_Inr] obtain image_files where
    m: "map_err (class_files os (world s) (data_dir s) names) [0..<length names] = Inr image_files"
    and r: "(case fold (extend_step image_files (map (\<lambda>i. length (image_files ! i)) [0..<length names]))
                 [0..<length names] ([], []) of
            (files_list, classes) \<Rightarrow>
              bind_err (getitem files_list 0) (\<lambda>first.
              bind_err (image_size os (world s) first) (\<lambda>(width, height).
              Inr (s\<lparr>class_names := names, num_class := length names,
                     num_each := map (\<lambda>i. length (image_files ! i)) [0..<length names],
                     image_files_list := files_list, image_class := classes,
                     num_total := length classes,
                     image_width := width, image_height := height\<rparr>)))) = Inr s'"
    by blast
  define each where "each = map (\<lambda>i. length (image_files ! i)) [0..<length names]"
  have each_nth: "replicate (each ! i) i = replicate (length (image_files ! i)) i"
    if "i \<in> set [0..<length names]" for i
    using that by (simp add: each_def)
  have eq: "map (\<lambda>i. replicate (each ! i) i) [0..<length names] =
      map (\<lambda>i. replicate (length (image_files ! i)) i) [0..<length names]"
    by (rule map_cong [OF refl]) (rule each_nth)
  have f: "fold (extend_step image_files each) [0..<length names] ([], []) =
      (concat (map (\<lambda>i. image_files ! i) [0..<length names]),
       concat (map (\<lambda>i. replicate (length (image_files ! i)) i) [0..<length names]))"
    unfolding fold_extend_step eq by simp
  from r [folded each_def, unfolded f prod.case]
  have "\<exists>width height. s' = s\<lparr>class_names := names, num_class := length names, num_each := each,
               image_files_list := concat (map (\<lambda>i. image_files ! i) [0..<length names]),
               image_class := concat (map (\<lambda>i. replicate (length (image_files ! i)) i) [0..<length names]),
               num_total := length (concat (map (\<lambda>i. replicate (length (image_files ! i)) i) [0..<length names])),
               image_width := width, image_height := height\<rparr>"
    by (auto simp: bind_err_eq_Inr split: prod.splits)
  then obtain width height where
    s': "s' = s\<lparr>class_names := names, num_class := length names, num_each := each,
               image_files_list := concat (map (\<lambda>i. image_files ! i) [0..<length names]),
               image_class := concat (map (\<lambda>i. replicate (length (image_files ! i)) i) [0..<length names]),
               num_total := length (concat (map (\<lambda>i. replicate (length (image_files ! i)) i) [0..<length names])),
               image_width := width, image_height := height\<rparr>"
    by blast
  show thesis
  proof (rule that [of entries image_files])
    show "listdir os (world s) (data_dir s) = Inr entries"
      by (rule e)
    show "class_names s' = sort [x \<leftarrow> entries. path_isdir os (world s) (os_path_join (data_dir s) [x])]"
      by (simp add: s' names_def)
    have cn: "class_names s' = names" and nc: "num_class s' = length names"
      by (simp_all add: s')
    show "num_class s' = length (class_names s')"
      by (simp add: cn nc)
    show "map_err (class_files os (world s) (data_dir s) (class_names s')) [0..<num_class s'] = Inr image_files"
      unfolding cn nc by (rule m)
    show "num_each s' = map (\<lambda>i. length (image_files ! i)) [0..<num_class s']"
      unfolding nc by (simp add: s' each_def)
    show "image_files_list s' = concat (map (\<lambda>i. image_files ! i) [0..<num_class s'])"
      unfolding nc by (simp add: s')
    show "image_class s' = concat (map (\<lambda>i. replicate (length (image_files ! i)) i) [0..<num_class s'])"
      unfolding nc by (simp add: s')
    show "num_total s' = length (image_class s')"
      by (simp add: s')
    show "world s' = world s" "data_dir s' = data_dir s"
      "directory s' = directory s" "root_dir s' = root_dir s"
      by (simp_all add: s')
  qed
qed


lemma class_files_Inr:
  "class_files os w dir names i = Inr fs \<longleftrightarrow>
     (\<exists>xs. listdir os w (os_path_join dir [names ! i]) = Inr xs \<and>
        fs = map (\<lambda>x. os_path_join dir [names ! i, x]) xs)"
  by (auto simp: class_files_def bind_err_eq_Inr)

lemma length_concat_classes:
  "length (concat (map (\<lambda>i. replicate (length (F i)) i) is)) = length (concat (map F is))"
  by (induction "is") simp_all

lemma in_concat_pairs:
  "(a, c) \<in> set (concat (map (\<lambda>i. map (\<lambda>p. (p, i)) (F i)) is)) \<Longrightarrow> c \<in> set is \<and> a \<in> set (F c)"
  by (induction "is") auto

lemma concat_classes_pairs:
  assumes "k < length (concat (map F is))"
  shows "concat (map (\<lambda>i. replicate (length (F i)) i) is) ! k \<in> set is \<and>
         concat (map F is) ! k \<in> set (F (concat (map (\<lambda>i. replicate (length (F i)) i) is) ! k))"
proof -
  let ?fs = "concat (map F is)" and ?cs = "concat (map (\<lambda>i. replicate (length (F i)) i) is)"
  have "k < length (zip ?fs ?cs)"
    by (simp only: length_zip length_concat_classes min.idem assms)
  then have "zip ?fs ?cs ! k \<in> set (zip ?fs ?cs)"
    by (rule nth_mem)
  moreover have "zip ?fs ?cs ! k = (?fs ! k, ?cs ! k)"
    by (rule nth_zip) (simp_all only: length_concat_classes assms)
  ultimately have "(?fs ! k, ?cs ! k) \<in> set (concat (map (\<lambda>i. map (\<lambda>p. (p, i)) (F i)) is))"
    by (simp only: zip_concat_classes)
  then show ?thesis
    by (rule in_concat_pairs)
qed

lemma cell10_example: "cell10 example_os example_notebook = Inr example_listed"
  by code_simp

text \<open>
  C7. When the cell completes, \<open>class_names\<close> is the sorted list of those entries of
  the data directory that are directories, the two lists have the same length, which is
  the sum of \<open>num_each\<close> and the value of \<open>num_total\<close>, every class is below
  \<open>num_class\<close>, and the \<open>k\<close>-th file is an entry of the directory of the \<open>k\<close>-th
  class, joined to that directory's path.
\<close>

theorem enumeration_invariant:
  assumes "cell10 os s = Inr s'"
  shows "(\<exists>entries. listdir os (world s) (data_dir s) = Inr entries \<and>
            sorted (class_names s') \<and>
            mset (class_names s') =
              mset [x \<leftarrow> entries. path_isdir os (world s) (os_path_join (data_dir s) [x])]) \<and>
         num_class s' = length (class_names s') \<and>
         length (image_files_list s') = length (image_class s') \<and>
         length (image_class s') = sum_list (num_each s') \<and>
         num_total s' = length (image_class s') \<and>
         (\<forall>c \<in> set (image_class s'). c < num_class s') \<and>
         (\<forall>k < length (image_files_list s'). \<exists>x xs.
            listdir os (world s) (os_path_join (data_dir s) [class_names s' ! (image_class s' ! k)])
              = Inr xs \<and>
            x \<in> set xs \<and>
            image_files_list s' ! k =
              os_path_join (data_dir s) [class_names s' ! (image_class s' ! k), x])"
proof -
  from assms obtain entries image_files where
    e: "listdir os (world s) (data_dir s) = Inr entries"
    and cn: "class_names s' = sort [x \<leftarrow> entries. path_isdir os (world s) (os_path_join (data_dir s) [x])]"
    and nc: "num_class s' = length (class_names s')"
    and m: "map_err (class_files os (world s) (data_dir s) (class_names s')) [0..<num_class s'] = Inr image_files"
    and ne: "num_each s' = map (\<lambda>i. length (image_files ! i)) [0..<num_class s']"
    and fl: "image_files_list s' = concat (map (\<lambda>i. image_files ! i) [0..<num_class s'])"
    and ic: "image_class s' = concat (map (\<lambda>i. replicate (length (image_files ! i)) i) [0..<num_class s'])"
    and nt: "num_total s' = length (image_class s')"
    by (rule cell10_Inr)
  have names: "\<exists>entries. listdir os (world s) (data_dir s) = Inr entries \<and>
            sorted (class_names s') \<and>
            mset (class_names s') =
              mset [x \<leftarrow> entries. path_isdir os (world s) (os_path_join (data_dir s) [x])]"
    using e by (simp add: cn)
  have len1: "length (image_files_list s') = length (image_class s')"
    by (simp add: fl ic length_concat comp_def)
  have len2: "length (image_class s') = sum_list (num_each s')"
    by (simp add: ic ne length_concat comp_def)
  have range: "\<forall>c \<in> set (image_class s'). c < num_class s'"
    by (auto simp: ic)
  have under: "\<exists>x xs.
            listdir os (world s) (os_path_join (data_dir s) [class_names s' ! (image_class s' ! k)])
              = Inr xs \<and>
            x \<in> set xs \<and>
            image_files_list s' ! k =
              os_path_join (data_dir s) [class_names s' ! (image_class s' ! k), x]"
    if "k < length (image_files_list s')" for k
  proof -
    have k: "k < length (concat (map (\<lambda>i. image_files ! i) [0..<num_class s']))"
      using that by (simp only: fl)
    define i where "i = image_class s' ! k"
    have i: "i < num_class s'" "image_files_list s' ! k \<in> set (image_files ! i)"
      "image_class s' ! k = i"
      using concat_classes_pairs [OF k] unfolding i_def fl ic by simp_all
    from map_err_Inr [OF m] i(1)
    have "class_files os (world s) (data_dir s) (class_names s') i = Inr (image_files ! i)"
      by simp
    then obtain xs where "listdir os (world s) (os_path_join (data_dir s) [class_names s' ! i]) = Inr xs"
      "image_files ! i = map (\<lambda>x. os_path_join (data_dir s) [class_names s' ! i, x]) xs"
      unfolding class_files_Inr by blast
    with i show ?thesis
      by auto
  qed
  from names nc len1 len2 nt range under show ?thesis
    by blast
qed

text \<open>
  The unpacked example tree: the class folders sorted, the stray file left out, three
  images with their classes.
\<close>

theorem enumeration_invariant_witness:
  "cell10 example_os example_notebook = Inr example_listed \<and>
   class_names example_listed = [''CXR'', ''Hand''] \<and>
   sorted (class_names example_listed) \<and>
   length (image_files_list example_listed) = length (image_class example_listed) \<and>
   length (image_class example_listed) = sum_list (num_each example_listed) \<and>
   num_total example_listed = length (image_class example_listed)"
  using enumeration_invariant [OF cell10_example] cell10_example
  by (simp add: example_listed_def)

subsection \<open>Failures, the download guard and the clean-up\<close>



lemma cell40_eq:
  "cell40 os t = (if directory t = None
      then bind_err (rmtree os (root_dir t) (world t)) (\<lambda>w. Inr (t\<lparr>world := w\<rparr>))
      else Inr t)"
  by (simp add: cell40_def)






lemma cell6_frame:
  "cell6 os u = Inr u' \<Longrightarrow> directory u' = directory u \<and> root_dir u' = root_dir u"
  by (auto simp: cell6_def Let_def bind_err_eq_Inr split: if_splits)

lemma cell10_frame:
  "cell10 os u = Inr u' \<Longrightarrow> directory u' = directory u \<and> root_dir u' = root_dir u"
  by (erule cell10_Inr) simp

subsection \<open>Floating-point products\<close>

declare bit_length.simps [simp del]

lemma bit_length_0: "bit_length 0 = 0"
  by (simp add: bit_length.simps)

lemma bit_length_pos: "n \<noteq> 0 \<Longrightarrow> bit_length n = Suc (bit_length (n div 2))"
  by (subst bit_length.simps) simp

lemma bit_length_lower: "n \<noteq> 0 \<Longrightarrow> 2 ^ (bit_length n - 1) \<le> n"
proof (induction n rule: bit_length.induct)
  case (1 n)
  show ?case
  proof (cases "n div 2 = 0")
    case True
    with "1.prems" show ?thesis
      by (simp add: bit_length_pos bit_length_0)
  next
    case False
    with "1.IH" "1.prems" have "2 ^ (bit_length (n div 2) - 1) \<le> n div 2"
      by simp
    then have "2 * 2 ^ (bit_length (n div 2) - 1) \<le> 2 * (n div 2)"
      by simp
    also have "2 * 2 ^ (bit_length (n div 2) - 1) = (2::nat) ^ bit_length (n div 2)"
      using False by (simp add: bit_length_pos)
    also have "2 * (n div 2) \<le> n"
      by simp
    finally show ?thesis
      using "1.prems" by (simp add: bit_length_pos)
  qed
qed

lemma round53_le: "round53 m \<le> 2 * m"
proof (cases "bit_length m \<le> 53")
  case True
  then show ?thesis
    by (simp add: round53_def)
next
  case False
  define shift where "shift = bit_length m - 53"
  define q where "q = m div 2 ^ shift"
  have m0: "m \<noteq> 0"
  proof
    assume "m = 0"
    with False show False
      by (simp add: bit_length_0)
  qed
  have "(2::nat) ^ shift \<le> 2 ^ (bit_length m - 1)"
    unfolding shift_def by (rule power_increasing) simp_all
  also have "\<dots> \<le> m"
    using m0 by (rule bit_length_lower)
  finally have "1 \<le> q"
    unfolding q_def by (simp add: div_greater_zero_iff Suc_le_eq)
  have "round53 m \<le> (q + 1) * 2 ^ shift"
    using False by (simp add: round53_def Let_def flip: shift_def q_def)
  also have "\<dots> \<le> (2 * q) * 2 ^ shift"
    using \<open>1 \<le> q\<close> by (intro mult_right_mono) simp_all
  also have "\<dots> = 2 * (q * 2 ^ shift)"
    by simp
  also have "q * 2 ^ shift \<le> m"
    unfolding q_def by simp
  finally show ?thesis
    by simp
qed

lemma round53_less_power: "n < 2 ^ k \<Longrightarrow> round53 n < 2 ^ Suc k"
proof -
  assume "n < 2 ^ k"
  then have "2 * n < 2 * 2 ^ k"
    by simp
  with round53_le [of n] have "round53 n < 2 * 2 ^ k"
    by (rule le_less_trans)
  then show ?thesis
    by (simp only: power_Suc)
qed

lemma py_float_small: "n < 2 ^ 1023 \<Longrightarrow> py_float n = Inr (round53 n)"
proof -
  assume "n < 2 ^ 1023"
  then have "round53 n < 2 ^ Suc 1023"
    by (rule round53_less_power)
  moreover have "Suc 1023 = 1024"
    by simp
  ultimately have "round53 n < 2 ^ 1024"
    by (simp only:)
  then show ?thesis
    unfolding py_float_def by (simp only: if_True)
qed

lemma four_tenths: "4 * tenth \<le> 2 ^ 54"
  by (simp add: tenth_def)

lemma half_of_scaled: "(2 ^ 54 * n) div 2 ^ 55 = n div (2::nat)"
proof -
  have "(2 ^ 54 * n) div (2 ^ 54 * 2) = n div (2::nat)"
    by (rule div_mult_mult1) simp
  moreover have "(2::nat) ^ 55 = 2 ^ 54 * 2"
    by simp
  ultimately show ?thesis
    by (simp only:)
qed

lemma floor_product_tenth:
  assumes "n < 2 ^ 1023"
  shows "\<exists>c. floor_product tenth n = Inr c \<and> 2 * c \<le> n"
proof -
  define c where "c = round53 (tenth * round53 n) div 2 ^ 55"
  have eq: "floor_product tenth n = Inr c"
    unfolding floor_product_def py_float_small [OF assms] bind_err_Inr c_def ..
  have "round53 (tenth * round53 n) \<le> 2 * (tenth * round53 n)"
    by (rule round53_le)
  also have "\<dots> \<le> 2 * (tenth * (2 * n))"
    using round53_le [of n] by simp
  also have "\<dots> = (4 * tenth) * n"
    by simp
  also have "\<dots> \<le> 2 ^ 54 * n"
    using four_tenths by (rule mult_right_mono) simp
  finally have "c \<le> (2 ^ 54 * n) div 2 ^ 55"
    unfolding c_def by (rule div_le_mono)
  then have "c \<le> n div 2"
    by (simp only: half_of_scaled)
  then have "2 * c \<le> n"
    by simp
  with eq show ?thesis
    by blast
qed

lemma bit_length_numeral [simp]:
  "bit_length (numeral k) = Suc (bit_length (numeral k div 2))"
  by (rule bit_length_pos) simp

lemma bit_length_1 [simp]: "bit_length (Suc 0) = Suc 0"
  by (simp add: bit_length_pos bit_length_0)

lemma floor_product_examples:
  "floor_product tenth 0 = Inr 0" "floor_product tenth 9 = Inr 0"
  "floor_product tenth 10 = Inr 1" "floor_product tenth 20 = Inr 2"
  "floor_product tenth 58954 = Inr 5895" "floor_product tenth 3 = Inr 0"
  by (simp_all add: floor_product_def py_float_def round53_def tenth_def Let_def bit_length_0)


lemma bit_length_bound: "n < 2 ^ bit_length n"
proof (induction n rule: bit_length.induct)
  case (1 n)
  show ?case
  proof (cases "n = 0")
    case True
    then show ?thesis
      by simp
  next
    case False
    with "1.IH" have "n div 2 < 2 ^ bit_length (n div 2)"
      by simp
    then have "n < 2 * 2 ^ bit_length (n div 2)"
      by simp
    then show ?thesis
      using False by (simp add: bit_length_pos)
  qed
qed

lemma bit_length_upper: "n < 2 ^ k \<Longrightarrow> bit_length n \<le> k"
proof (cases "n = 0")
  case True
  then show ?thesis
    by (simp add: bit_length_0)
next
  case False
  assume "n < 2 ^ k"
  with bit_length_lower [OF False] have "(2::nat) ^ (bit_length n - 1) < 2 ^ k"
    by (rule le_less_trans)
  then have "bit_length n - 1 < k"
    by simp
  then show ?thesis
    by simp
qed

text \<open>Rounding moves a number by at most half a unit of the last kept bit.\<close>

lemma round53_bounds:
  assumes "53 < bit_length m"
  defines "shift \<equiv> bit_length m - 53"
  shows "(m div 2 ^ shift) * 2 ^ shift \<le> round53 m"
    and "round53 m \<le> m + 2 ^ (shift - 1)"
proof -
  define q where "q = m div 2 ^ shift"
  define r where "r = m mod 2 ^ shift"
  have m: "m = q * 2 ^ shift + r"
    unfolding q_def r_def by (rule div_mult_mod_eq [symmetric])
  have pos: "0 < shift"
    using assms(1) by (simp add: shift_def)
  then have two: "(2::nat) ^ shift = 2 * 2 ^ (shift - 1)"
    by (cases shift) simp_all
  have r53: "round53 m =
      (if 2 ^ (shift - 1) < r \<or> (r = 2 ^ (shift - 1) \<and> odd q) then q + 1 else q) * 2 ^ shift"
    using assms(1) by (simp add: round53_def Let_def flip: shift_def q_def r_def)
  show "(m div 2 ^ shift) * 2 ^ shift \<le> round53 m"
    unfolding r53 by (simp flip: q_def)
  show "round53 m \<le> m + 2 ^ (shift - 1)"
  proof (cases "2 ^ (shift - 1) < r \<or> (r = 2 ^ (shift - 1) \<and> odd q)")
    case True
    then have half: "2 ^ (shift - 1) \<le> r"
      by auto
    from True have "round53 m = q * 2 ^ shift + 2 ^ shift"
      unfolding r53 by (simp add: algebra_simps)
    also have "\<dots> = q * 2 ^ shift + (2 ^ (shift - 1) + 2 ^ (shift - 1))"
      by (simp only: two mult_2)
    also have "\<dots> \<le> q * 2 ^ shift + (r + 2 ^ (shift - 1))"
      using half by simp
    also have "\<dots> = m + 2 ^ (shift - 1)"
      by (simp add: m)
    finally show ?thesis .
  next
    case False
    then have "round53 m = q * 2 ^ shift"
      unfolding r53 by simp
    also have "\<dots> \<le> m + 2 ^ (shift - 1)"
      by (simp add: m)
    finally show ?thesis .
  qed
qed


lemma ten_tenths: "10 * tenth = 2 ^ 55 + 2"
  by (simp add: tenth_def)

lemma tenth_less: "tenth < 2 ^ 52"
  by (simp add: tenth_def)

lemma three_tenths: "2 ^ 53 < 3 * tenth"
  by (simp add: tenth_def)

text \<open>
  Below \<open>2^52\<close> the rounded product never reaches the next integer:
  \<^verbatim>\<open>floor(0.1 * n)\<close> is \<open>n div 10\<close>.
\<close>

lemma floor_product_tenth_div:
  assumes "n < 2 ^ 52"
  shows "floor_product tenth n = Inr (n div 10)"
proof -
  define q where "q = n div 10"
  define r where "r = n mod 10"
  have n: "n = 10 * q + r" and r: "r < 10"
    by (simp_all add: q_def r_def)
  have "bit_length n \<le> 52"
    using assms by (rule bit_length_upper)
  then have rn: "round53 n = n"
    by (simp add: round53_def)
  have "n < 2 ^ 1023"
  proof -
    have "(2::nat) ^ 52 \<le> 2 ^ 1023"
      by (rule power_increasing) simp_all
    with assms show ?thesis
      by (rule less_le_trans)
  qed
  then have fl: "floor_product tenth n = Inr (round53 (tenth * n) div 2 ^ 55)"
    unfolding floor_product_def by (simp only: py_float_small bind_err_Inr rn)
  define P where "P = tenth * n"
  have tenP: "10 * P = n * 2 ^ 55 + 2 * n"
    unfolding P_def using ten_tenths by (simp add: algebra_simps flip: mult.assoc)
  have low: "q * 2 ^ 55 \<le> P"
  proof -
    have "10 * (q * 2 ^ 55) \<le> n * 2 ^ 55"
      by (simp add: n)
    also have "\<dots> \<le> 10 * P"
      by (simp add: tenP)
    finally show ?thesis
      by simp
  qed
  have "round53 P div 2 ^ 55 = q"
  proof (cases "bit_length P \<le> 53")
    case True
    then have same: "round53 P = P"
      by (simp add: round53_def)
    have "n < 3"
    proof (rule ccontr)
      assume "\<not> n < 3"
      then have "3 * tenth \<le> P"
        unfolding P_def by simp
      with three_tenths have "2 ^ 53 < P"
        by simp
      moreover have "P < 2 ^ bit_length P"
        by (rule bit_length_bound)
      moreover have "(2::nat) ^ bit_length P \<le> 2 ^ 53"
        using True by (intro power_increasing) simp_all
      ultimately have "P < P"
        by simp
      then show False
        by simp

    qed
    then have "q = 0"
      by (simp add: q_def)
    moreover have "P < 2 ^ 55"
    proof -
      from \<open>n < 3\<close> have "P \<le> tenth * 3"
        unfolding P_def by simp
      also have "\<dots> < 2 ^ 55"
        by (simp add: tenth_def)
      finally show ?thesis .
    qed
    ultimately show ?thesis
      by (simp add: same)
  next
    case False
    define shift where "shift = bit_length P - 53"
    from False have big: "53 < bit_length P"
      by simp
    note b = round53_bounds [OF big, folded shift_def]
    have "P < 2 ^ 52 * 2 ^ 52"
      unfolding P_def using tenth_less assms by (rule mult_strict_mono) simp_all
    then have "P < 2 ^ 104"
      by (simp flip: power_add)
    then have "bit_length P \<le> 104"
      by (rule bit_length_upper)
    then have shift: "shift \<le> 51"
      by (simp add: shift_def)
    have lower: "q * 2 ^ 55 \<le> round53 P"
    proof -
      have "55 - shift + shift = 55"
        using shift by simp
      then have "(2::nat) ^ 55 = 2 ^ (55 - shift) * 2 ^ shift"
        by (simp only: flip: power_add)
      then have eq: "q * 2 ^ 55 = (q * 2 ^ (55 - shift)) * 2 ^ shift"
        by (simp only: mult.assoc)
      from low have "(q * 2 ^ (55 - shift)) * 2 ^ shift \<le> P"
        by (simp only: eq)
      then have "q * 2 ^ (55 - shift) \<le> P div 2 ^ shift"
        by (simp only: less_eq_div_iff_mult_less_eq zero_less_power zero_less_numeral)
      then have "(q * 2 ^ (55 - shift)) * 2 ^ shift \<le> (P div 2 ^ shift) * 2 ^ shift"
        by (rule mult_right_mono) simp
      also note b(1)
      finally show ?thesis
        by (simp only: eq)
    qed
    have upper: "round53 P < (q + 1) * 2 ^ 55"
    proof -
      have "(2::nat) ^ (shift - 1) \<le> 2 ^ 50"
        using shift by (intro power_increasing) simp_all
      then have "10 * round53 P \<le> 10 * P + 10 * 2 ^ 50"
        using b(2) by simp
      also have "\<dots> = 10 * q * 2 ^ 55 + (r * 2 ^ 55 + 2 * n + 10 * 2 ^ 50)"
        unfolding tenP by (simp add: n algebra_simps)
      also have "\<dots> < 10 * q * 2 ^ 55 + 10 * 2 ^ 55"
      proof -
        have "r * 2 ^ 55 \<le> 9 * 2 ^ 55"
          using r by simp
        moreover have "2 * n < 2 ^ 53"
          using assms by simp
        moreover have "(2::nat) ^ 53 + 10 * 2 ^ 50 < 2 ^ 55"
          by simp
        ultimately show ?thesis
          by simp
      qed
      finally show ?thesis
        by simp
    qed
    from lower upper show ?thesis
      by (intro div_nat_eqI) (simp_all add: mult.commute)
  qed
  then show ?thesis
    by (simp add: fl P_def q_def)
qed


subsection \<open>The two splits\<close>

lemma for_range_append:
  "for_range body (xs @ ys) s = bind_err (for_range body xs s) (for_range body ys)"
  by (induction xs arbitrary: s) (simp_all add: bind_err_def split: sum.splits)

lemma for_range_single: "for_range body [i] = body i"
  by (rule ext) (simp add: bind_err_def split: sum.splits)

lemma for_range_upt_Suc:
  "for_range body [0..<Suc m] s = bind_err (for_range body [0..<m] s) (body m)"
  by (simp add: for_range_append for_range_single del: for_range.simps)

lemma draw_fold: "fst (random_sample np (generator_after np g k)) = draw np g k"
  by (simp add: draw_def)

lemma generator_after_fold:
  "snd (random_sample np (generator_after np g k)) = generator_after np g (Suc k)"
  by simp

text \<open>The indices below \<open>m\<close> that a predicate selects, and the items at them.\<close>

lemma filter_upt_Suc:
  "[i \<leftarrow> [0..<Suc m]. P i] = [i \<leftarrow> [0..<m]. P i] @ (if P m then [m] else [])"
  by simp

lemma split_step_eq:
  assumes "i < length (image_files_list s)" "i < length (image_class s)"
  shows "split_step np i s =
     Inr (let rann = fst (random_sample np (np_global s));
              s = s\<lparr>np_global := snd (random_sample np (np_global s))\<rparr>
          in if rann < val_frac
             then s\<lparr>val_x := val_x s @ [image_files_list s ! i],
                    val_y := val_y s @ [image_class s ! i]\<rparr>
             else if rann < test_frac + val_frac
             then s\<lparr>test_x := test_x s @ [image_files_list s ! i],
                    test_y := test_y s @ [image_class s ! i]\<rparr>
             else s\<lparr>train_x := train_x s @ [image_files_list s ! i],
                    train_y := train_y s @ [image_class s ! i]\<rparr>)"
  using assms by (simp add: split_step_def Let_def split: prod.splits)


lemma split_loop:
  assumes "m \<le> length (image_files_list s)" "m \<le> length (image_class s)"
  shows "for_range (split_step np) [0..<m] s =
     Inr (s\<lparr>np_global := generator_after np (np_global s) m,
            val_x := val_x s @ map ((!) (image_files_list s))
                       [i \<leftarrow> [0..<m]. draw np (np_global s) i < val_frac],
            val_y := val_y s @ map ((!) (image_class s))
                       [i \<leftarrow> [0..<m]. draw np (np_global s) i < val_frac],
            test_x := test_x s @ map ((!) (image_files_list s))
                       [i \<leftarrow> [0..<m]. \<not> draw np (np_global s) i < val_frac \<and>
                                       draw np (np_global s) i < test_frac + val_frac],
            test_y := test_y s @ map ((!) (image_class s))
                       [i \<leftarrow> [0..<m]. \<not> draw np (np_global s) i < val_frac \<and>
                                       draw np (np_global s) i < test_frac + val_frac],
            train_x := train_x s @ map ((!) (image_files_list s))
                       [i \<leftarrow> [0..<m]. \<not> draw np (np_global s) i < val_frac \<and>
                                       \<not> draw np (np_global s) i < test_frac + val_frac],
            train_y := train_y s @ map ((!) (image_class s))
                       [i \<leftarrow> [0..<m]. \<not> draw np (np_global s) i < val_frac \<and>
                                       \<not> draw np (np_global s) i < test_frac + val_frac]\<rparr>)"
  using assms
proof (induction m)
  case 0
  show ?case by simp
next
  case (Suc m)
  then have IH: "for_range (split_step np) [0..<m] s = Inr (s\<lparr>np_global := generator_after np (np_global s) m,
            val_x := val_x s @ map ((!) (image_files_list s))
                       [i \<leftarrow> [0..<m]. draw np (np_global s) i < val_frac],
            val_y := val_y s @ map ((!) (image_class s))
                       [i \<leftarrow> [0..<m]. draw np (np_global s) i < val_frac],
            test_x := test_x s @ map ((!) (image_files_list s))
                       [i \<leftarrow> [0..<m]. \<not> draw np (np_global s) i < val_frac \<and>
                                       draw np (np_global s) i < test_frac + val_frac],
            test_y := test_y s @ map ((!) (image_class s))
                       [i \<leftarrow> [0..<m]. \<not> draw np (np_global s) i < val_frac \<and>
                                       draw np (np_global s) i < test_frac + val_frac],
            train_x := train_x s @ map ((!) (image_files_list s))
                       [i \<leftarrow> [0..<m]. \<not> draw np (np_global s) i < val_frac \<and>
                                       \<not> draw np (np_global s) i < test_frac + val_frac],
            train_y := train_y s @ map ((!) (image_class s))
                       [i \<leftarrow> [0..<m]. \<not> draw np (np_global s) i < val_frac \<and>
                                       \<not> draw np (np_global s) i < test_frac + val_frac]\<rparr>)"
    by simp
  from Suc.prems have m: "m < length (image_files_list s)" "m < length (image_class s)"
    by simp_all
  show ?case
    unfolding for_range_upt_Suc IH bind_err_Inr
    using m by (subst split_step_eq)
      (simp_all add: draw_fold generator_after_fold Let_def filter_upt_Suc
        del: upt_Suc generator_after.simps)
qed


lemma group_step_eq:
  assumes "m < length gs" "m < length files" "m < length classes" "gs ! m \<in> {0, 1, 2}"
  shows "group_step gs files classes m ([x0, x1, x2], [y0, y1, y2]) =
     Inr (if gs ! m = 0 then ([x0 @ [files ! m], x1, x2], [y0 @ [classes ! m], y1, y2])
          else if gs ! m = 1 then ([x0, x1 @ [files ! m], x2], [y0, y1 @ [classes ! m], y2])
          else ([x0, x1, x2 @ [files ! m]], [y0, y1, y2 @ [classes ! m]]))"
proof -
  from assms(4) consider "gs ! m = 0" | "gs ! m = 1" | "gs ! m = 2"
    by auto
  then show ?thesis
  proof cases
    case 1
    with assms(1-3) show ?thesis
      by (simp add: group_step_def tuple_append_def getitem_def)
  next
    case 2
    with assms(1-3) show ?thesis
      by (simp add: group_step_def tuple_append_def getitem_def)
  next
    case 3
    with assms(1-3) show ?thesis
      by (simp add: group_step_def tuple_append_def getitem_def)
  qed
qed

lemma group_loop:
  assumes "m \<le> length gs" "m \<le> length files" "m \<le> length classes"
    and "set gs \<subseteq> {0, 1, 2}"
  shows "for_range (group_step gs files classes) [0..<m] ([x0, x1, x2], [y0, y1, y2]) =
     Inr ([x0 @ map ((!) files) [i \<leftarrow> [0..<m]. gs ! i = 0],
           x1 @ map ((!) files) [i \<leftarrow> [0..<m]. gs ! i = 1],
           x2 @ map ((!) files) [i \<leftarrow> [0..<m]. gs ! i = 2]],
          [y0 @ map ((!) classes) [i \<leftarrow> [0..<m]. gs ! i = 0],
           y1 @ map ((!) classes) [i \<leftarrow> [0..<m]. gs ! i = 1],
           y2 @ map ((!) classes) [i \<leftarrow> [0..<m]. gs ! i = 2]])"
  using assms(1-3)
proof (induction m)
  case 0
  show ?case by simp
next
  case (Suc m)
  then have IH: "for_range (group_step gs files classes) [0..<m] ([x0, x1, x2], [y0, y1, y2]) =
     Inr ([x0 @ map ((!) files) [i \<leftarrow> [0..<m]. gs ! i = 0],
           x1 @ map ((!) files) [i \<leftarrow> [0..<m]. gs ! i = 1],
           x2 @ map ((!) files) [i \<leftarrow> [0..<m]. gs ! i = 2]],
          [y0 @ map ((!) classes) [i \<leftarrow> [0..<m]. gs ! i = 0],
           y1 @ map ((!) classes) [i \<leftarrow> [0..<m]. gs ! i = 1],
           y2 @ map ((!) classes) [i \<leftarrow> [0..<m]. gs ! i = 2]])"
    by simp
  from Suc.prems have m: "m < length gs" "m < length files" "m < length classes"
    by simp_all
  with assms(4) have g: "gs ! m \<in> {0, 1, 2}"
    using nth_mem by blast
  show ?case
    unfolding for_range_upt_Suc IH bind_err_Inr group_step_eq [OF m g] filter_upt_Suc
    using g by auto
qed

lemma slice_assign_in_range:
  assumes "lo \<le> hi" "hi \<le> length xs"
  shows "slice_assign xs lo hi v = take lo xs @ replicate (hi - lo) v @ drop hi xs"
proof -
  from assms have "min lo (length xs) = lo" "min hi (length xs) = hi" "max lo hi = hi"
    by simp_all
  then show ?thesis
    by (simp only: slice_assign_def Let_def)
qed

lemma labelled_groups_eq:
  assumes "v + t \<le> n"
  shows "labelled_groups n v t = replicate v 1 @ replicate t 2 @ replicate (n - (v + t)) 0"
proof -
  have "slice_assign (np_zeros n) 0 v 1 = take 0 (np_zeros n) @ replicate (v - 0) 1 @ drop v (np_zeros n)"
    using assms by (intro slice_assign_in_range) (simp_all add: np_zeros_def)
  then have first: "slice_assign (np_zeros n) 0 v 1 = replicate v 1 @ replicate (n - v) 0"
    by (simp add: np_zeros_def)
  have "slice_assign (replicate v (1::int) @ replicate (n - v) 0) v (v + t) 2 =
      take v (replicate v (1::int) @ replicate (n - v) 0) @ replicate (v + t - v) 2 @
      drop (v + t) (replicate v (1::int) @ replicate (n - v) 0)"
    using assms by (intro slice_assign_in_range) simp_all
  also have "\<dots> = replicate v 1 @ replicate t 2 @ replicate (n - (v + t)) 0"
    using assms by simp
  finally show ?thesis
    unfolding labelled_groups_def Let_def first .
qed

lemma count_list_replicate_eq: "count_list (replicate n x) y = (if x = y then n else 0)"
  by (induction n) auto

lemma labelled_groups_counts:
  assumes "v + t \<le> n"
  shows "count_list (labelled_groups n v t) 1 = v \<and>
         count_list (labelled_groups n v t) 2 = t \<and>
         count_list (labelled_groups n v t) 0 = n - (v + t) \<and>
         length (labelled_groups n v t) = n \<and>
         set (labelled_groups n v t) \<subseteq> {0, 1, 2}"
  unfolding labelled_groups_eq [OF assms]
  using assms by (auto simp: count_list_replicate_eq)

lemma length_filter_nth:
  "length [i \<leftarrow> [0..<length xs]. P (xs ! i)] = length (filter P xs)"
proof -
  have "filter P (map ((!) xs) [0..<length xs]) = map ((!) xs) [i \<leftarrow> [0..<length xs]. P (xs ! i)]"
    by (simp add: filter_map comp_def)
  then have "length (filter P (map ((!) xs) [0..<length xs])) = length [i \<leftarrow> [0..<length xs]. P (xs ! i)]"
    by simp
  then show ?thesis
    by (simp only: map_nth)
qed

lemma length_filter_eq_count:
  "length [i \<leftarrow> [0..<length xs]. xs ! i = v] = count_list xs v"
proof -
  have "length [i \<leftarrow> [0..<length xs]. xs ! i = v] = length (filter (\<lambda>x. x = v) xs)"
    by (rule length_filter_nth [of "\<lambda>x. x = v"])
  also have "\<dots> = count_list xs v"
    by (induction xs) simp_all
  finally show ?thesis .
qed

lemma count_list_mset: "count_list xs v = count (mset xs) v"
  by (induction xs) simp_all


lemma zip_map_nth:
  "zip (map ((!) xs) js) (map ((!) ys) js) = map (\<lambda>i. (xs ! i, ys ! i)) js"
  by (induction js) simp_all

lemma map_pair_nth:
  "length xs = length ys \<Longrightarrow> map (\<lambda>i. (xs ! i, ys ! i)) [0..<length xs] = zip xs ys"
  by (rule nth_equalityI) simp_all

lemma mset_three_filters:
  assumes "\<And>x. x \<in> set L \<Longrightarrow> (A x \<or> B x \<or> C x) \<and> \<not> (A x \<and> B x) \<and> \<not> (A x \<and> C x) \<and> \<not> (B x \<and> C x)"
  shows "mset (map f (filter A L)) + mset (map f (filter B L)) + mset (map f (filter C L)) =
     mset (map f L)"
  using assms by (induction L) auto

lemma mset_three_zips:
  assumes "length xs = n" "length ys = n"
    and "\<And>i. i < n \<Longrightarrow> (A i \<or> B i \<or> C i) \<and> \<not> (A i \<and> B i) \<and> \<not> (A i \<and> C i) \<and> \<not> (B i \<and> C i)"
  shows "mset (zip (map ((!) xs) (filter A [0..<n])) (map ((!) ys) (filter A [0..<n]))) +
         mset (zip (map ((!) xs) (filter B [0..<n])) (map ((!) ys) (filter B [0..<n]))) +
         mset (zip (map ((!) xs) (filter C [0..<n])) (map ((!) ys) (filter C [0..<n]))) =
         mset (zip xs ys)"
proof -
  have "mset (map (\<lambda>i. (xs ! i, ys ! i)) (filter A [0..<n])) +
        mset (map (\<lambda>i. (xs ! i, ys ! i)) (filter B [0..<n])) +
        mset (map (\<lambda>i. (xs ! i, ys ! i)) (filter C [0..<n])) =
        mset (map (\<lambda>i. (xs ! i, ys ! i)) [0..<n])"
    by (rule mset_three_filters) (use assms(3) in simp)
  also have "map (\<lambda>i. (xs ! i, ys ! i)) [0..<n] = zip xs ys"
    using map_pair_nth [of xs ys] assms(1,2) by simp
  finally show ?thesis
    by (simp only: zip_map_nth)
qed


lemma cell14_eq:
  assumes "length (image_files_list s) = num_total s" "length (image_class s) = num_total s"
  shows "cell14 np s =
     Inr (s\<lparr>np_global := generator_after np (np_global s) (num_total s),
            val_x := map ((!) (image_files_list s))
                       [i \<leftarrow> [0..<num_total s]. draw np (np_global s) i < val_frac],
            val_y := map ((!) (image_class s))
                       [i \<leftarrow> [0..<num_total s]. draw np (np_global s) i < val_frac],
            test_x := map ((!) (image_files_list s))
                       [i \<leftarrow> [0..<num_total s]. \<not> draw np (np_global s) i < val_frac \<and>
                                       draw np (np_global s) i < test_frac + val_frac],
            test_y := map ((!) (image_class s))
                       [i \<leftarrow> [0..<num_total s]. \<not> draw np (np_global s) i < val_frac \<and>
                                       draw np (np_global s) i < test_frac + val_frac],
            train_x := map ((!) (image_files_list s))
                       [i \<leftarrow> [0..<num_total s]. \<not> draw np (np_global s) i < val_frac \<and>
                                       \<not> draw np (np_global s) i < test_frac + val_frac],
            train_y := map ((!) (image_class s))
                       [i \<leftarrow> [0..<num_total s]. \<not> draw np (np_global s) i < val_frac \<and>
                                       \<not> draw np (np_global s) i < test_frac + val_frac]\<rparr>)"
proof -
  let ?s0 = "s\<lparr>train_x := [], train_y := [], val_x := [], val_y := [], test_x := [], test_y := []\<rparr>"
  have "num_total s \<le> length (image_files_list ?s0)" "num_total s \<le> length (image_class ?s0)"
    using assms by simp_all
  from split_loop [OF this, of np] show ?thesis
    by (simp add: cell14_def)
qed

text \<open>
  C3. With both lists as long as \<open>num_total\<close>, the cell completes. It leaves the
  global generator in the state reached after \<open>num_total\<close> draws, one per index, and
  item \<open>i\<close> is placed by the \<open>i\<close>-th draw: in the validation lists when the draw is
  below \<open>val_frac\<close>, otherwise in the test lists when it is below
  \<open>test_frac + val_frac\<close>, otherwise in the training lists. A file and its class go to
  the same place of the same pair of lists, and the three pairs of lists together hold
  every pair of the input exactly once.
\<close>

theorem original_split_partition:
  assumes "length (image_files_list s) = num_total s" "length (image_class s) = num_total s"
  shows "\<exists>s'. cell14 np s = Inr s' \<and>
     np_global s' = generator_after np (np_global s) (num_total s) \<and>
     val_x s' = map ((!) (image_files_list s))
                  [i \<leftarrow> [0..<num_total s]. draw np (np_global s) i < val_frac] \<and>
     val_y s' = map ((!) (image_class s))
                  [i \<leftarrow> [0..<num_total s]. draw np (np_global s) i < val_frac] \<and>
     test_x s' = map ((!) (image_files_list s))
                  [i \<leftarrow> [0..<num_total s]. \<not> draw np (np_global s) i < val_frac \<and>
                                       draw np (np_global s) i < test_frac + val_frac] \<and>
     test_y s' = map ((!) (image_class s))
                  [i \<leftarrow> [0..<num_total s]. \<not> draw np (np_global s) i < val_frac \<and>
                                       draw np (np_global s) i < test_frac + val_frac] \<and>
     train_x s' = map ((!) (image_files_list s))
                  [i \<leftarrow> [0..<num_total s]. \<not> draw np (np_global s) i < val_frac \<and>
                                       \<not> draw np (np_global s) i < test_frac + val_frac] \<and>
     train_y s' = map ((!) (image_class s))
                  [i \<leftarrow> [0..<num_total s]. \<not> draw np (np_global s) i < val_frac \<and>
                                       \<not> draw np (np_global s) i < test_frac + val_frac] \<and>
     mset (zip (train_x s') (train_y s')) + mset (zip (val_x s') (val_y s')) +
       mset (zip (test_x s') (test_y s')) =
       mset (zip (image_files_list s) (image_class s))"
proof -
  let ?n = "num_total s" and ?d = "draw np (np_global s)"
  let ?V = "\<lambda>i. ?d i < val_frac"
  let ?T = "\<lambda>i. \<not> ?d i < val_frac \<and> ?d i < test_frac + val_frac"
  let ?R = "\<lambda>i. \<not> ?d i < val_frac \<and> \<not> ?d i < test_frac + val_frac"
  have "mset (zip (map ((!) (image_files_list s)) (filter ?R [0..<?n]))
                  (map ((!) (image_class s)) (filter ?R [0..<?n]))) +
        mset (zip (map ((!) (image_files_list s)) (filter ?V [0..<?n]))
                  (map ((!) (image_class s)) (filter ?V [0..<?n]))) +
        mset (zip (map ((!) (image_files_list s)) (filter ?T [0..<?n]))
                  (map ((!) (image_class s)) (filter ?T [0..<?n]))) =
        mset (zip (image_files_list s) (image_class s))"
    using assms by (intro mset_three_zips) auto
  then show ?thesis
    unfolding cell14_eq [OF assms] by simp
qed

lemma shuffled_groups:
  assumes "\<forall>g xs. mset (fst (shuffle np g xs)) = mset xs" "v + t \<le> n"
  defines "gs \<equiv> fst (shuffle np (seeded np dataset_seed) (labelled_groups n v t))"
  shows "length gs = n" "set gs \<subseteq> {0, 1, 2}"
    "count_list gs 1 = v" "count_list gs 2 = t" "count_list gs 0 = n - (v + t)"
proof -
  have m: "mset gs = mset (labelled_groups n v t)"
    unfolding gs_def using assms(1) by blast
  note c = labelled_groups_counts [OF assms(2)]
  from m have "length gs = length (labelled_groups n v t)"
    by (rule mset_eq_length)
  with c show "length gs = n"
    by simp
  from m have "set gs = set (labelled_groups n v t)"
    by (rule mset_eq_setD)
  with c show "set gs \<subseteq> {0, 1, 2}"
    by simp
  show "count_list gs 1 = v" "count_list gs 2 = t" "count_list gs 0 = n - (v + t)"
    using c by (simp_all add: count_list_mset m)
qed

lemma cell36_eq:
  assumes "length (image_files_list s) = num_total s" "length (image_class s) = num_total s"
    and "floor_product tenth (num_total s) = Inr c"
    and "gs = fst (shuffle np (seeded np dataset_seed) (labelled_groups (num_total s) c c))"
    and "length gs = num_total s" "set gs \<subseteq> {0, 1, 2}"
  shows "cell36 np s =
     Inr (s\<lparr>train_x := map ((!) (image_files_list s)) [i \<leftarrow> [0..<num_total s]. gs ! i = 0],
            val_x := map ((!) (image_files_list s)) [i \<leftarrow> [0..<num_total s]. gs ! i = 1],
            test_x := map ((!) (image_files_list s)) [i \<leftarrow> [0..<num_total s]. gs ! i = 2],
            train_y := map ((!) (image_class s)) [i \<leftarrow> [0..<num_total s]. gs ! i = 0],
            val_y := map ((!) (image_class s)) [i \<leftarrow> [0..<num_total s]. gs ! i = 1],
            test_y := map ((!) (image_class s)) [i \<leftarrow> [0..<num_total s]. gs ! i = 2]\<rparr>)"
proof -
  have loop: "for_range (group_step gs (image_files_list s) (image_class s)) [0..<num_total s]
        ([[], [], []], [[], [], []]) =
      Inr ([[] @ map ((!) (image_files_list s)) [i \<leftarrow> [0..<num_total s]. gs ! i = 0],
            [] @ map ((!) (image_files_list s)) [i \<leftarrow> [0..<num_total s]. gs ! i = 1],
            [] @ map ((!) (image_files_list s)) [i \<leftarrow> [0..<num_total s]. gs ! i = 2]],
           [[] @ map ((!) (image_class s)) [i \<leftarrow> [0..<num_total s]. gs ! i = 0],
            [] @ map ((!) (image_class s)) [i \<leftarrow> [0..<num_total s]. gs ! i = 1],
            [] @ map ((!) (image_class s)) [i \<leftarrow> [0..<num_total s]. gs ! i = 2]])"
    using assms(1,2,5,6) by (intro group_loop) simp_all
  show ?thesis
    unfolding cell36_def Let_def assms(3) bind_err_Inr case_prod_beta assms(4) [symmetric] loop
    by simp
qed


text \<open>
  C1. For lists as long as \<open>num_total\<close> and a shuffle that permutes its argument, the
  cell completes. The array built before the shuffle has \<open>floor(0.1 * num_total)\<close>
  entries 1, as many entries 2 and zeros elsewhere. After the shuffle item \<open>n\<close> goes to
  the lists selected by \<open>groups[n]\<close>, a file and its class to the same place of the
  same pair of lists; every entry of \<open>groups\<close> is 0, 1 or 2, so the three pairs of
  lists together hold every pair of the input exactly once. The validation and the test
  lists have \<open>floor(0.1 * num_total)\<close> elements each and the training lists have the
  rest. The product is the floating-point one; below \<open>2^52\<close> items its floor is
  \<open>num_total div 10\<close>. The bound on \<open>num_total\<close> is far above the length any list
  can have.
\<close>

theorem revised_split_partition:
  assumes "length (image_files_list s) = num_total s" "length (image_class s) = num_total s"
    and "num_total s < 2 ^ 1023"
    and "\<forall>g xs. mset (fst (shuffle np g xs)) = mset xs"
  shows "\<exists>c groups s'.
     floor_product tenth (num_total s) = Inr c \<and>
     (num_total s < 2 ^ 52 \<longrightarrow> c = num_total s div 10) \<and>
     length (labelled_groups (num_total s) c c) = num_total s \<and>
     count_list (labelled_groups (num_total s) c c) 1 = c \<and>
     count_list (labelled_groups (num_total s) c c) 2 = c \<and>
     count_list (labelled_groups (num_total s) c c) 0 = num_total s - 2 * c \<and>
     groups = fst (shuffle np (seeded np dataset_seed) (labelled_groups (num_total s) c c)) \<and>
     length groups = num_total s \<and> set groups \<subseteq> {0, 1, 2} \<and>
     cell36 np s = Inr s' \<and>
     train_x s' = map ((!) (image_files_list s)) [i \<leftarrow> [0..<num_total s]. groups ! i = 0] \<and>
     train_y s' = map ((!) (image_class s)) [i \<leftarrow> [0..<num_total s]. groups ! i = 0] \<and>
     val_x s' = map ((!) (image_files_list s)) [i \<leftarrow> [0..<num_total s]. groups ! i = 1] \<and>
     val_y s' = map ((!) (image_class s)) [i \<leftarrow> [0..<num_total s]. groups ! i = 1] \<and>
     test_x s' = map ((!) (image_files_list s)) [i \<leftarrow> [0..<num_total s]. groups ! i = 2] \<and>
     test_y s' = map ((!) (image_class s)) [i \<leftarrow> [0..<num_total s]. groups ! i = 2] \<and>
     mset (zip (train_x s') (train_y s')) + mset (zip (val_x s') (val_y s')) +
       mset (zip (test_x s') (test_y s')) =
       mset (zip (image_files_list s) (image_class s)) \<and>
     length (val_x s') = c \<and> length (val_y s') = c \<and>
     length (test_x s') = c \<and> length (test_y s') = c \<and>
     length (train_x s') = num_total s - 2 * c \<and>
     length (train_y s') = num_total s - 2 * c"
proof -
  let ?n = "num_total s"
  from floor_product_tenth [OF assms(3)] obtain c where
    c: "floor_product tenth ?n = Inr c" and "2 * c \<le> ?n"
    by blast
  then have cc: "c + c \<le> ?n"
    by simp
  define gs where "gs = fst (shuffle np (seeded np dataset_seed) (labelled_groups ?n c c))"
  note before = labelled_groups_counts [OF cc]
  note after = shuffled_groups [OF assms(4) cc, folded gs_def]
  let ?s' = "s\<lparr>train_x := map ((!) (image_files_list s)) [i \<leftarrow> [0..<?n]. gs ! i = 0],
            val_x := map ((!) (image_files_list s)) [i \<leftarrow> [0..<?n]. gs ! i = 1],
            test_x := map ((!) (image_files_list s)) [i \<leftarrow> [0..<?n]. gs ! i = 2],
            train_y := map ((!) (image_class s)) [i \<leftarrow> [0..<?n]. gs ! i = 0],
            val_y := map ((!) (image_class s)) [i \<leftarrow> [0..<?n]. gs ! i = 1],
            test_y := map ((!) (image_class s)) [i \<leftarrow> [0..<?n]. gs ! i = 2]\<rparr>"
  have run: "cell36 np s = Inr ?s'"
    using assms(1,2) c gs_def after(1,2) by (rule cell36_eq)
  have len: "length [i \<leftarrow> [0..<?n]. gs ! i = v] = count_list gs v" for v
    using length_filter_eq_count [of gs v] by (simp only: after(1))
  have one: "(gs ! i = 0 \<or> gs ! i = 1 \<or> gs ! i = 2) \<and> \<not> (gs ! i = 0 \<and> gs ! i = 1) \<and>
      \<not> (gs ! i = 0 \<and> gs ! i = 2) \<and> \<not> (gs ! i = 1 \<and> gs ! i = 2)" if "i < ?n" for i
  proof -
    from that after(1) have "gs ! i \<in> set gs"
      by simp
    with after(2) show ?thesis
      by auto
  qed
  have part: "mset (zip (map ((!) (image_files_list s)) [i \<leftarrow> [0..<?n]. gs ! i = 0])
                        (map ((!) (image_class s)) [i \<leftarrow> [0..<?n]. gs ! i = 0])) +
        mset (zip (map ((!) (image_files_list s)) [i \<leftarrow> [0..<?n]. gs ! i = 1])
                  (map ((!) (image_class s)) [i \<leftarrow> [0..<?n]. gs ! i = 1])) +
        mset (zip (map ((!) (image_files_list s)) [i \<leftarrow> [0..<?n]. gs ! i = 2])
                  (map ((!) (image_class s)) [i \<leftarrow> [0..<?n]. gs ! i = 2])) =
        mset (zip (image_files_list s) (image_class s))"
    using assms(1,2) one by (rule mset_three_zips)
  have b: "length (labelled_groups ?n c c) = ?n"
    "count_list (labelled_groups ?n c c) 1 = c"
    "count_list (labelled_groups ?n c c) 2 = c"
    "count_list (labelled_groups ?n c c) 0 = ?n - 2 * c"
    using before by (simp_all add: mult_2)
  have fields: "train_x ?s' = map ((!) (image_files_list s)) [i \<leftarrow> [0..<?n]. gs ! i = 0]"
    "train_y ?s' = map ((!) (image_class s)) [i \<leftarrow> [0..<?n]. gs ! i = 0]"
    "val_x ?s' = map ((!) (image_files_list s)) [i \<leftarrow> [0..<?n]. gs ! i = 1]"
    "val_y ?s' = map ((!) (image_class s)) [i \<leftarrow> [0..<?n]. gs ! i = 1]"
    "test_x ?s' = map ((!) (image_files_list s)) [i \<leftarrow> [0..<?n]. gs ! i = 2]"
    "test_y ?s' = map ((!) (image_class s)) [i \<leftarrow> [0..<?n]. gs ! i = 2]"
    by simp_all
  have part': "mset (zip (train_x ?s') (train_y ?s')) + mset (zip (val_x ?s') (val_y ?s')) +
       mset (zip (test_x ?s') (test_y ?s')) =
       mset (zip (image_files_list s) (image_class s))"
    unfolding fields by (rule part)
  have lens: "length (val_x ?s') = c" "length (val_y ?s') = c"
    "length (test_x ?s') = c" "length (test_y ?s') = c"
    "length (train_x ?s') = ?n - 2 * c" "length (train_y ?s') = ?n - 2 * c"
    unfolding fields length_map len after(3-5) by (simp_all add: mult_2)
  have div10: "?n < 2 ^ 52 \<longrightarrow> c = ?n div 10"
    using c floor_product_tenth_div [of ?n] by simp
  from c div10 b gs_def after(1,2) run fields part' lens show ?thesis
    by (intro exI [of _ c] exI [of _ gs] exI [of _ "?s'"] conjI)
qed


subsection \<open>Examples of the two splits\<close>

lemma mset_rotate1_eq: "mset (rotate1 xs) = mset xs"
  by (cases xs) simp_all

lemma mset_rotate_eq: "mset (rotate n xs) = mset xs"
  by (induction n) (simp_all add: mset_rotate1_eq)

lemma example_rng_shuffle: "\<forall>g xs. mset (fst (shuffle example_rng g xs)) = mset xs"
  by (simp add: example_rng_def mset_rotate_eq del: rotate_Suc)

lemma example_ten_lengths:
  "length (image_files_list example_ten) = num_total example_ten"
  "length (image_class example_ten) = num_total example_ten"
  "num_total example_ten = 10"
  by (simp_all add: example_ten_def)

lemma ten_small: "(10::nat) < 2 ^ 1023"
proof -
  have "(10::nat) < 2 ^ 4"
    by simp
  also have "(2::nat) ^ 4 \<le> 2 ^ 1023"
    by (rule power_increasing) simp_all
  finally show ?thesis .
qed

text \<open>
  Ten items: \<open>floor(0.1 * 10)\<close> is 1, so one item is held out for validation, one
  for testing, and eight remain for training.
\<close>

theorem revised_split_partition_witness:
  "\<exists>s'. cell36 example_rng example_ten = Inr s' \<and>
     length (val_x s') = 1 \<and> length (val_y s') = 1 \<and>
     length (test_x s') = 1 \<and> length (test_y s') = 1 \<and>
     length (train_x s') = 8 \<and> length (train_y s') = 8 \<and>
     mset (zip (train_x s') (train_y s')) + mset (zip (val_x s') (val_y s')) +
       mset (zip (test_x s') (test_y s')) =
       mset (zip (image_files_list example_ten) (image_class example_ten))"
proof -
  have small: "num_total example_ten < 2 ^ 1023"
    using ten_small by (simp only: example_ten_lengths(3))
  from revised_split_partition [OF example_ten_lengths(1,2) small example_rng_shuffle]
  obtain c s' where "floor_product tenth (num_total example_ten) = Inr c"
    and run: "cell36 example_rng example_ten = Inr s'"
    and part: "mset (zip (train_x s') (train_y s')) + mset (zip (val_x s') (val_y s')) +
       mset (zip (test_x s') (test_y s')) =
       mset (zip (image_files_list example_ten) (image_class example_ten))"
    and lens: "length (val_x s') = c" "length (val_y s') = c"
      "length (test_x s') = c" "length (test_y s') = c"
      "length (train_x s') = num_total example_ten - 2 * c"
      "length (train_y s') = num_total example_ten - 2 * c"
    by blast
  then have "c = 1"
    by (simp add: example_ten_lengths(3) floor_product_examples)
  with run part lens show ?thesis
    by (simp add: example_ten_lengths(3))
qed


lemma example_generator_after:
  "generator_after example_rng g k = (if k = 0 then g else (g + 7 * k) mod 20)"
proof (induction k)
  case 0
  show ?case by simp
next
  case (Suc k)
  then show ?case
    by (simp add: example_rng_def mod_simps ac_simps)
qed

lemma example_draw: "draw example_rng g k = of_nat ((g + 7 * k) mod 20) / 20"
  by (simp add: draw_def example_generator_after) (simp add: example_rng_def)

text \<open>
  Ten items and the draws 0.35, 0.7, 0.05, 0.4, 0.75, 0.1, 0.45, 0.8, 0.15, 0.5: the
  third and the sixth item go to validation (the double \<open>0.1\<close> is a little above one
  tenth), the ninth to testing.
\<close>

theorem original_split_partition_witness:
  "\<exists>s'. cell14 example_rng example_ten = Inr s' \<and>
     val_x s' = [''c'', ''f''] \<and> val_y s' = [0, 1] \<and>
     test_x s' = [''i''] \<and> test_y s' = [1] \<and>
     train_x s' = [''a'', ''b'', ''d'', ''e'', ''g'', ''h'', ''j''] \<and>
     train_y s' = [0, 0, 0, 0, 1, 1, 1]"
proof -
  have g: "np_global example_ten = 7"
    by (simp add: example_ten_def example_notebook_def)
  have upt: "[0..<10] = [0, 1, 2, 3, 4, 5, 6, 7, 8, 9::nat]"
    by (simp add: upt_conv_Cons)
  from original_split_partition [OF example_ten_lengths(1,2), of example_rng]
  obtain s' where run: "cell14 example_rng example_ten = Inr s'"
    and "val_x s' = map ((!) (image_files_list example_ten))
                  [i \<leftarrow> [0..<num_total example_ten]. draw example_rng (np_global example_ten) i < val_frac]"
    and "val_y s' = map ((!) (image_class example_ten))
                  [i \<leftarrow> [0..<num_total example_ten]. draw example_rng (np_global example_ten) i < val_frac]"
    and "test_x s' = map ((!) (image_files_list example_ten))
                  [i \<leftarrow> [0..<num_total example_ten]. \<not> draw example_rng (np_global example_ten) i < val_frac \<and>
                                       draw example_rng (np_global example_ten) i < test_frac + val_frac]"
    and "test_y s' = map ((!) (image_class example_ten))
                  [i \<leftarrow> [0..<num_total example_ten]. \<not> draw example_rng (np_global example_ten) i < val_frac \<and>
                                       draw example_rng (np_global example_ten) i < test_frac + val_frac]"
    and "train_x s' = map ((!) (image_files_list example_ten))
                  [i \<leftarrow> [0..<num_total example_ten]. \<not> draw example_rng (np_global example_ten) i < val_frac \<and>
                                       \<not> draw example_rng (np_global example_ten) i < test_frac + val_frac]"
    and "train_y s' = map ((!) (image_class example_ten))
                  [i \<leftarrow> [0..<num_total example_ten]. \<not> draw example_rng (np_global example_ten) i < val_frac \<and>
                                       \<not> draw example_rng (np_global example_ten) i < test_frac + val_frac]"
    by blast
  then show ?thesis
    unfolding example_ten_lengths(3) upt g
    by (simp add: example_draw val_frac_def test_frac_def tenth_def example_ten_def)
qed

subsection \<open>Determinism of the revised split, and the clean-up\<close>

lemma map_sum_bind_err:
  "map_sum id h (bind_err m f) = bind_err m (\<lambda>x. map_sum id h (f x))"
  by (cases m) simp_all

lemma cell36_lists_only:
  assumes "num_total t = num_total s" "image_files_list t = image_files_list s"
    "image_class t = image_class s"
  shows "map_sum id split_lists (cell36 np t) = map_sum id split_lists (cell36 np s)"
  by (simp add: cell36_def Let_def map_sum_bind_err case_prod_beta split_lists_def assms)

lemma cell36_frame:
  assumes "cell36 np s = Inr s'"
  shows "np_global s' = np_global s \<and> num_total s' = num_total s \<and>
     image_files_list s' = image_files_list s \<and> image_class s' = image_class s \<and>
     directory s' = directory s \<and> root_dir s' = root_dir s \<and> world s' = world s"
  using assms by (auto simp: cell36_def Let_def bind_err_eq_Inr case_prod_beta)

lemma for_range_invariant:
  assumes "\<And>i u u'. body i u = Inr u' \<Longrightarrow> P u \<Longrightarrow> P u'"
  shows "for_range body js u = Inr u' \<Longrightarrow> P u \<Longrightarrow> P u'"
proof (induction js arbitrary: u)
  case Nil
  then show ?case by simp
next
  case (Cons j js)
  from Cons.prems(1) obtain v where "body j u = Inr v" "for_range body js v = Inr u'"
    by (auto simp: bind_err_eq_Inr)
  with Cons.IH [of v] assms [of j u v] Cons.prems(2) show ?case
    by blast
qed

lemma split_step_frame:
  assumes "split_step np i u = Inr u'"
  shows "directory u' = directory u \<and> root_dir u' = root_dir u"
  using assms
  by (auto simp: split_step_def Let_def bind_err_eq_Inr split: prod.splits if_splits)

lemma cell14_frame:
  assumes "cell14 np u = Inr u'"
  shows "directory u' = directory u \<and> root_dir u' = root_dir u"
proof -
  let ?u0 = "u\<lparr>train_x := [], train_y := [], val_x := [], val_y := [], test_x := [], test_y := []\<rparr>"
  have "directory u' = directory ?u0 \<and> root_dir u' = root_dir ?u0"
  proof (rule for_range_invariant [where P = "\<lambda>v. directory v = directory ?u0 \<and> root_dir v = root_dir ?u0"
        and body = "split_step np" and js = "[0..<num_total u]" and u = ?u0])
    show "for_range (split_step np) [0..<num_total u] ?u0 = Inr u'"
      using assms by (simp add: cell14_def)
    show "directory v' = directory ?u0 \<and> root_dir v' = root_dir ?u0"
      if "split_step np i v = Inr v'" "directory v = directory ?u0 \<and> root_dir v = root_dir ?u0"
      for i v v'
      using split_step_frame [OF that(1)] that(2) by simp
  qed simp
  then show ?thesis
    by simp
qed


text \<open>
  C2. The lists the revised split produces are a function of the seed and of the three
  variables it reads: two runs that start with the same \<open>num_total\<close>,
  \<open>image_files_list\<close> and \<open>image_class\<close> end with the same six lists, or fail alike,
  whatever the state of numpy's global generator and the earlier contents of the six
  lists. The cell draws from its own generator, made from \<open>dataset_seed\<close>: it leaves
  the global generator and its three inputs as they were, so running it again on its
  own result gives the same lists once more.
\<close>

theorem revised_split_deterministic:
  "(num_total t = num_total s \<and> image_files_list t = image_files_list s \<and>
      image_class t = image_class s \<longrightarrow>
      map_sum id split_lists (cell36 np t) = map_sum id split_lists (cell36 np s)) \<and>
   (\<forall>s'. cell36 np s = Inr s' \<longrightarrow>
      np_global s' = np_global s \<and> num_total s' = num_total s \<and>
      image_files_list s' = image_files_list s \<and> image_class s' = image_class s \<and>
      map_sum id split_lists (cell36 np s') = Inr (split_lists s'))"
proof (intro conjI impI allI)
  assume "num_total t = num_total s \<and> image_files_list t = image_files_list s \<and>
      image_class t = image_class s"
  then show "map_sum id split_lists (cell36 np t) = map_sum id split_lists (cell36 np s)"
    by (intro cell36_lists_only) simp_all
next
  fix s'
  assume run: "cell36 np s = Inr s'"
  from cell36_frame [OF run]
  show "np_global s' = np_global s" "num_total s' = num_total s"
    "image_files_list s' = image_files_list s" "image_class s' = image_class s"
    by simp_all
  then have "map_sum id split_lists (cell36 np s') = map_sum id split_lists (cell36 np s)"
    by (intro cell36_lists_only)
  then show "map_sum id split_lists (cell36 np s') = Inr (split_lists s')"
    by (simp add: run)
qed

text \<open>
  The ten example items, split once from a state whose global generator is at 7 and
  once from a state whose global generator is at 3 and whose lists are not empty.
\<close>

theorem revised_split_deterministic_witness:
  "map_sum id split_lists (cell36 example_rng (example_ten\<lparr>np_global := 3, train_x := [''z'']\<rparr>)) =
   map_sum id split_lists (cell36 example_rng example_ten)"
proof -
  have "num_total (example_ten\<lparr>np_global := 3, train_x := [''z'']\<rparr>) = num_total example_ten \<and>
      image_files_list (example_ten\<lparr>np_global := 3, train_x := [''z'']\<rparr>) =
        image_files_list example_ten \<and>
      image_class (example_ten\<lparr>np_global := 3, train_x := [''z'']\<rparr>) = image_class example_ten"
    by simp
  then show ?thesis
    using revised_split_deterministic
      [where t = "example_ten\<lparr>np_global := 3, train_x := [''z'']\<rparr>" and s = example_ten
         and np = example_rng]
    by blast
qed

text \<open>
  C9. \<open>directory\<close> and \<open>root_dir\<close> are assigned by cell 4 only; cells 6, 10, 14 and
  36 keep them. If the state at the clean-up still has the values cell 4 gave them,
  then: when \<^verbatim>\<open>MONAI_DATA_DIRECTORY\<close> was unset, \<open>root_dir\<close> is the directory
  \<^verbatim>\<open>mkdtemp\<close> made and the clean-up is the call \<^verbatim>\<open>shutil.rmtree(root_dir)\<close>; when it
  was set, \<open>root_dir\<close> is the user's directory and the clean-up returns the state as it
  is, whatever the operating system would do: it calls nothing.
\<close>

theorem cleanup_only_temporary_directory:
  assumes "cell4 os environ s = Inr s1" "directory t = directory s1" "root_dir t = root_dir s1"
  shows "(environ ''MONAI_DATA_DIRECTORY'' = None \<longrightarrow>
           (\<exists>w. mkdtemp os (world s) = Inr (root_dir t, w)) \<and>
           cell40 os t = bind_err (rmtree os (root_dir t) (world t)) (\<lambda>w. Inr (t\<lparr>world := w\<rparr>))) \<and>
         (\<forall>d. environ ''MONAI_DATA_DIRECTORY'' = Some d \<longrightarrow>
           root_dir t = d \<and> (\<forall>os'. cell40 os' t = Inr t)) \<and>
         (\<forall>u u'. cell6 os u = Inr u' \<or> cell10 os u = Inr u' \<or> cell14 np u = Inr u' \<or>
                 cell36 np u = Inr u' \<longrightarrow>
           directory u' = directory u \<and> root_dir u' = root_dir u)"
proof (intro conjI impI allI)
  assume unset: "environ ''MONAI_DATA_DIRECTORY'' = None"
  with assms(1) obtain d w where "mkdtemp os (world s) = Inr (d, w)"
    "s1 = s\<lparr>directory := None, root_dir := d, world := w\<rparr>"
    by (auto simp: cell4_unset_Inr)
  with assms(2,3) have "directory t = None" "mkdtemp os (world s) = Inr (root_dir t, w)"
    by simp_all
  then show "\<exists>w. mkdtemp os (world s) = Inr (root_dir t, w)"
    "cell40 os t = bind_err (rmtree os (root_dir t) (world t)) (\<lambda>w. Inr (t\<lparr>world := w\<rparr>))"
    by (auto simp: cell40_def)
next
  fix d
  assume "environ ''MONAI_DATA_DIRECTORY'' = Some d"
  with assms(1) have "s1 = s\<lparr>directory := Some d, root_dir := d\<rparr>"
    by (simp add: cell4_set)
  with assms(2,3) have "directory t = Some d" "root_dir t = d"
    by simp_all
  then show "root_dir t = d" "cell40 os' t = Inr t" for os'
    by (simp_all add: cell40_def)
next
  fix u u'
  assume "cell6 os u = Inr u' \<or> cell10 os u = Inr u' \<or> cell14 np u = Inr u' \<or>
                 cell36 np u = Inr u'"
  then consider "cell6 os u = Inr u'" | "cell10 os u = Inr u'" | "cell14 np u = Inr u'"
    | "cell36 np u = Inr u'"
    by blast
  then have "directory u' = directory u \<and> root_dir u' = root_dir u"
  proof cases
    case 1
    then show ?thesis by (rule cell6_frame)
  next
    case 2
    then show ?thesis by (rule cell10_frame)
  next
    case 3
    then show ?thesis by (rule cell14_frame)
  next
    case 4
    from cell36_frame [OF this] show ?thesis by simp
  qed
  then show "directory u' = directory u" "root_dir u' = root_dir u"
    by simp_all
qed

text \<open>
  With an empty environment the temporary directory is removed again and the rest of the
  file system stays; with the variable set to \<^verbatim>\<open>/data\<close> nothing is touched.
\<close>

theorem cleanup_only_temporary_directory_witness:
  "cell40 example_os
     (example_notebook\<lparr>directory := None, root_dir := ''/tmp/tmpq1w2e3'',
        world := (''/tmp/tmpq1w2e3'', Dir []) # world example_notebook\<rparr>) =
     Inr (example_notebook\<lparr>directory := None, root_dir := ''/tmp/tmpq1w2e3''\<rparr>) \<and>
   cell40 example_os example_notebook = Inr example_notebook"
proof -
  let ?t = "example_notebook\<lparr>directory := None, root_dir := ''/tmp/tmpq1w2e3'',
        world := (''/tmp/tmpq1w2e3'', Dir []) # world example_notebook\<rparr>"
  have start: "cell4 example_os Map.empty example_notebook = Inr ?t"
    by (simp add: cell4_def example_os_def)
  have "(Map.empty :: string \<rightharpoonup> string) ''MONAI_DATA_DIRECTORY'' = None"
    by simp
  with cleanup_only_temporary_directory [OF start refl refl, of example_rng]
  have "cell40 example_os ?t =
      bind_err (rmtree example_os (root_dir ?t) (world ?t)) (\<lambda>w. Inr (?t\<lparr>world := w\<rparr>))"
    by blast
  moreover have "rmtree example_os (root_dir ?t) (world ?t) = Inr (world example_notebook)"
    by (simp add: example_os_def example_notebook_def example_tree_def)
  ultimately have 1: "cell40 example_os ?t =
      Inr (example_notebook\<lparr>directory := None, root_dir := ''/tmp/tmpq1w2e3''\<rparr>)"
    by simp
  have set: "cell4 example_os [''MONAI_DATA_DIRECTORY'' \<mapsto> ''/data''] example_notebook =
      Inr example_notebook"
    by (simp add: cell4_def example_notebook_def)
  have "[''MONAI_DATA_DIRECTORY'' \<mapsto> ''/data''] ''MONAI_DATA_DIRECTORY'' = Some ''/data''"
    by simp
  with cleanup_only_temporary_directory [OF set refl refl, of example_rng]
  have 2: "cell40 example_os example_notebook = Inr example_notebook"
    by blast
  from 1 2 show ?thesis
    by blast
qed

subsection \<open>The training loop\<close>



lemma training_loop_0 [simp]: "training_loop 0 run = training_init"
  by (simp add: training_loop_def)

lemma training_loop_Suc [simp]:
  "training_loop (Suc n) run = epoch_body run n (training_loop n run)"
  by (simp add: training_loop_def)


lemma metric_values_loop:
  "metric_values (training_loop n run) = map (\<lambda>e. auc_metric (run e)) [0..<n]"
  by (induction n) (simp_all add: training_init_def epoch_body_def Let_def)

lemma best_metric_body:
  "best_metric (epoch_body run e t) = max (best_metric t) (auc_metric (run e))"
  by (simp add: epoch_body_def Let_def max_def)

lemma saved_body:
  "saved (epoch_body run e t) =
     (if best_metric t < auc_metric (run e) then saved t @ [state_dict (run e)] else saved t)"
  by (simp add: epoch_body_def Let_def)

lemma best_metric_loop:
  "best_metric (training_loop n run) = Max (insert (- 1) ((\<lambda>e. auc_metric (run e)) ` {..<n}))"
proof (induction n)
  case 0
  show ?case by (simp add: training_init_def)
next
  case (Suc n)
  have "Max (insert (- 1) ((\<lambda>e. auc_metric (run e)) ` {..<Suc n})) =
        Max (insert (auc_metric (run n)) (insert (- 1) ((\<lambda>e. auc_metric (run e)) ` {..<n})))"
    by (simp add: lessThan_Suc insert_commute)
  also have "\<dots> = max (auc_metric (run n)) (Max (insert (- 1) ((\<lambda>e. auc_metric (run e)) ` {..<n})))"
    by (rule Max_insert) simp_all
  finally show ?case
    using Suc by (simp add: best_metric_body max.commute)
qed

lemma best_metric_ge:
  "e < n \<Longrightarrow> auc_metric (run e) \<le> best_metric (training_loop n run)"
  by (simp add: best_metric_loop)

lemma best_metric_epoch_loop:
  "if best_metric (training_loop n run) = - 1
   then best_metric_epoch (training_loop n run) = - 1
   else \<exists>i<n. best_metric_epoch (training_loop n run) = int i + 1 \<and>
          auc_metric (run i) = best_metric (training_loop n run) \<and>
          (\<forall>j<i. auc_metric (run j) < best_metric (training_loop n run))"
proof (induction n)
  case 0
  show ?case by (simp add: training_init_def)
next
  case (Suc n)
  let ?t = "training_loop n run"
  have lower: "- 1 \<le> best_metric ?t"
    by (simp add: best_metric_loop)
  show ?case
  proof (cases "best_metric ?t < auc_metric (run n)")
    case True
    then have new: "best_metric (training_loop (Suc n) run) = auc_metric (run n)"
      "best_metric_epoch (training_loop (Suc n) run) = int n + 1"
      by (simp_all add: epoch_body_def Let_def)
    have "\<forall>j<n. auc_metric (run j) < auc_metric (run n)"
      using True best_metric_ge [of _ n run] by (meson le_less_trans)
    with new True lower show ?thesis
      by auto
  next
    case False
    then have same: "best_metric (training_loop (Suc n) run) = best_metric ?t"
      "best_metric_epoch (training_loop (Suc n) run) = best_metric_epoch ?t"
      by (simp_all add: epoch_body_def Let_def)
    show ?thesis
      unfolding same using Suc.IH by (auto intro: less_SucI)
  qed
qed

lemma training_loop_example:
  "training_loop 4 example_run =
     \<lparr>best_metric = 9 / 10, best_metric_epoch = 2,
      epoch_loss_values = [1, 1, 1, 1],
      metric_values = [1 / 2, 9 / 10, 9 / 10, 7 / 10], saved = [0, 1]\<rparr>"
  by (simp add: eval_nat_numeral training_init_def epoch_body_def example_run_def
      epoch_average_def batch_step_def Let_def)

text \<open>
  C4. \<open>training_loop k run\<close> is the state of the cell's variables after \<open>k\<close> epochs.
  In epoch \<open>k + 1\<close> the weights are saved exactly when that epoch's AUC is strictly
  above \<open>best_metric\<close> as the earlier epochs left it; \<open>best_metric\<close> starts at \<open>-1\<close>,
  is always the largest of \<open>-1\<close> and the AUC values so far, and never decreases. AUC
  values lie in \<open>[0, 1]\<close>, so they are above \<open>-1\<close>: then, after at least one epoch,
  \<open>best_metric\<close> is the maximum of \<open>metric_values\<close> and \<open>best_metric_epoch\<close> is the
  1-based number of the first epoch that attains it.
\<close>

theorem checkpoint_on_strict_improvement:
  "(\<forall>k. saved (training_loop (Suc k) run) =
      (if best_metric (training_loop k run) < auc_metric (run k)
       then saved (training_loop k run) @ [state_dict (run k)]
       else saved (training_loop k run))) \<and>
   best_metric (training_loop 0 run) = - 1 \<and>
   saved (training_loop 0 run) = [] \<and>
   (\<forall>k. best_metric (training_loop k run) =
      Max (insert (- 1) (set (metric_values (training_loop k run))))) \<and>
   (\<forall>k. best_metric (training_loop k run) \<le> best_metric (training_loop (Suc k) run)) \<and>
   (0 < n \<and> (\<forall>v \<in> set (metric_values (training_loop n run)). - 1 < v) \<longrightarrow>
      best_metric (training_loop n run) = Max (set (metric_values (training_loop n run))) \<and>
      (\<exists>i<n. best_metric_epoch (training_loop n run) = int i + 1 \<and>
         metric_values (training_loop n run) ! i = best_metric (training_loop n run) \<and>
         (\<forall>j<i. metric_values (training_loop n run) ! j < best_metric (training_loop n run))))"
proof (intro conjI allI impI)
  fix k
  show "saved (training_loop (Suc k) run) =
      (if best_metric (training_loop k run) < auc_metric (run k)
       then saved (training_loop k run) @ [state_dict (run k)]
       else saved (training_loop k run))"
    by (simp add: saved_body)
  show "best_metric (training_loop k run) =
      Max (insert (- 1) (set (metric_values (training_loop k run))))"
    by (simp add: best_metric_loop metric_values_loop lessThan_atLeast0)
  show "best_metric (training_loop k run) \<le> best_metric (training_loop (Suc k) run)"
    by (simp add: best_metric_body)
next
  show "best_metric (training_loop 0 run) = - 1" "saved (training_loop 0 run) = []"
    by (simp_all add: training_init_def)
next
  assume a: "0 < n \<and> (\<forall>v \<in> set (metric_values (training_loop n run)). - 1 < v)"
  let ?t = "training_loop n run"
  let ?A = "(\<lambda>e. auc_metric (run e)) ` {..<n}"
  have mv: "set (metric_values ?t) = ?A"
    by (simp add: metric_values_loop lessThan_atLeast0)
  have first: "auc_metric (run 0) \<in> ?A"
    using a by simp
  then have ne: "?A \<noteq> {}"
    by blast
  have fin: "finite ?A"
    by simp
  have "- 1 < auc_metric (run 0)"
    using a first unfolding mv by blast
  also have "auc_metric (run 0) \<le> Max ?A"
    using fin first by (rule Max_ge)
  finally have above: "- 1 < Max ?A" .
  have "best_metric ?t = max (- 1) (Max ?A)"
    unfolding best_metric_loop using ne fin by (simp add: Max_insert)
  with above have best: "best_metric ?t = Max ?A"
    by simp
  then show "best_metric ?t = Max (set (metric_values ?t))"
    by (simp add: mv)
  from best above have "best_metric ?t \<noteq> - 1"
    by simp
  with best_metric_epoch_loop [of n run]
  obtain i where i: "i < n" "best_metric_epoch ?t = int i + 1"
    "auc_metric (run i) = best_metric ?t" "\<forall>j<i. auc_metric (run j) < best_metric ?t"
    by auto
  then show "\<exists>i<n. best_metric_epoch ?t = int i + 1 \<and>
         metric_values ?t ! i = best_metric ?t \<and>
         (\<forall>j<i. metric_values ?t ! j < best_metric ?t)"
    by (intro exI [of _ i]) (simp add: metric_values_loop)
qed

text \<open>
  With AUC 0.5, 0.9, 0.9, 0.7 the weights are saved in epochs 1 and 2 only, and the
  best epoch is 2, the first of the two that reach 0.9.
\<close>

theorem checkpoint_on_strict_improvement_witness:
  "metric_values (training_loop 4 example_run) = [1 / 2, 9 / 10, 9 / 10, 7 / 10] \<and>
   best_metric (training_loop 4 example_run) =
     Max (set (metric_values (training_loop 4 example_run))) \<and>
   best_metric (training_loop 4 example_run) = 9 / 10 \<and>
   best_metric_epoch (training_loop 4 example_run) = 2 \<and>
   saved (training_loop 4 example_run) = [0, 1]"
proof -
  have "0 < (4::nat) \<and> (\<forall>v \<in> set (metric_values (training_loop 4 example_run)). - 1 < v)"
    by (simp add: training_loop_example)
  then have "best_metric (training_loop 4 example_run) =
     Max (set (metric_values (training_loop 4 example_run)))"
    using checkpoint_on_strict_improvement [of example_run 4] by blast
  then show ?thesis
    by (simp add: training_loop_example)
qed




subsection \<open>The dataset class\<close>

lemma MedNISTDataset_len_init:
  "MedNISTDataset_len (MedNISTDataset_init fs ls tr) = length fs"
  by (simp add: MedNISTDataset_len_def MedNISTDataset_init_def)

lemma MedNISTDataset_getitem_Inr:
  "MedNISTDataset_getitem (MedNISTDataset_init fs ls tr) i = Inr (t, l) \<longleftrightarrow>
     valid_index fs i \<and> valid_index ls i \<and>
     (\<exists>f. getitem fs i = Inr f \<and> tr f = Inr t) \<and> getitem ls i = Inr l"
  by (auto simp: MedNISTDataset_getitem_def MedNISTDataset_init_def
      bind_err_eq_Inr getitem_eq_Inr)

lemma MedNISTDataset_getitem_fails:
  assumes "int (length ls) \<le> i"
  shows "\<exists>e. MedNISTDataset_getitem (MedNISTDataset_init fs ls tr) i = Inl e"
proof -
  from assms have "\<not> valid_index ls i"
    by (simp add: valid_index_def)
  then have "getitem ls i = Inl IndexError"
    by (rule getitem_invalid)
  then show ?thesis
    by (cases "getitem fs i"; cases "tr (projr (getitem fs i))")
      (simp_all add: MedNISTDataset_getitem_def MedNISTDataset_init_def)
qed

text \<open>
  C10. \<^verbatim>\<open>MedNISTDataset\<close> checks nothing. Its length is the number of image files,
  whatever the labels are. \<^verbatim>\<open>__getitem__\<close> returns a pair exactly when the index is
  valid for both lists and the transform succeeds, and the pair is then the transformed
  image at that index with the label at that index. For an index at or beyond the number
  of labels it raises; so with fewer labels than images the reported length still counts
  every image while the items from \<open>len(labels)\<close> on cannot be fetched.
\<close>

theorem MedNISTDataset_unvalidated:
  "MedNISTDataset_len (MedNISTDataset_init fs ls tr) = length fs \<and>
   (MedNISTDataset_getitem (MedNISTDataset_init fs ls tr) i = Inr (t, l) \<longleftrightarrow>
      valid_index fs i \<and> valid_index ls i \<and>
      (\<exists>f. getitem fs i = Inr f \<and> tr f = Inr t) \<and> getitem ls i = Inr l) \<and>
   (\<forall>k. length ls \<le> k \<longrightarrow>
      (\<exists>e. MedNISTDataset_getitem (MedNISTDataset_init fs ls tr) (int k) = Inl e))"
  using MedNISTDataset_len_init [of fs ls tr] MedNISTDataset_getitem_Inr [of fs ls tr i t l]
    MedNISTDataset_getitem_fails [of ls _ fs tr]
  by simp

text \<open>
  Three images and two labels: the length is 3, item 1 is the pair of image 1 and label
  1, and item 2 raises although it is below the length.
\<close>

theorem MedNISTDataset_unvalidated_witness:
  "MedNISTDataset_len (MedNISTDataset_init [''a'', ''b'', ''c''] [0, 1 :: nat] Inr) = 3 \<and>
   MedNISTDataset_getitem (MedNISTDataset_init [''a'', ''b'', ''c''] [0, 1 :: nat] Inr) 1
     = Inr (''b'', 1) \<and>
   (\<exists>e. MedNISTDataset_getitem (MedNISTDataset_init [''a'', ''b'', ''c''] [0, 1 :: nat] Inr) 2
     = Inl e)"
proof -
  have "valid_index [''a'', ''b'', ''c''] 1" "valid_index [0, 1 :: nat] 1"
    by (simp_all add: valid_index_def)
  moreover have "getitem [''a'', ''b'', ''c''] 1 = Inr ''b''" "getitem [0, 1 :: nat] 1 = Inr 1"
    by (simp_all add: getitem_def)
  moreover have "length [0, 1 :: nat] \<le> 2"
    by simp
  ultimately show ?thesis
    using MedNISTDataset_unvalidated
      [of "[''a'', ''b'', ''c'']" "[0, 1 :: nat]" Inr 1 "''b''" 1]
    by (metis int_ops(3) length_Cons list.size(3) numeral_3_eq_3 of_nat_numeral)
qed

end
